theory Spec2Isabelle
  imports Main
begin

section \<open>The element type, the allocator and the history of element operations\<close>

text \<open>
  The file \<^verbatim>\<open>vector.h\<close> defines \<^verbatim>\<open>RawMemory<T>\<close>, an owner of raw storage, and
  \<^verbatim>\<open>Vector<T>\<close>, a growable array built on it.  Both are templates over an element
  type \<^verbatim>\<open>T\<close> whose constructors and assignment operators may throw, and both call
  \<^verbatim>\<open>operator new\<close>, which may throw \<^verbatim>\<open>std::bad_alloc\<close>.

  An outcome is a value of \<open>error + 'r\<close>.  \<open>Bad_Alloc\<close> and \<open>Element_Throw\<close> are C++
  exceptions: they unwind the stack and a \<^verbatim>\<open>catch (...)\<close> sees them.
  \<open>Precondition_Violation\<close> stands for a failed \<^verbatim>\<open>assert\<close> and for any access the
  language leaves undefined (a slot outside the buffer, a read of a slot with no live
  object): no handler runs after it.
\<close>

datatype error = Bad_Alloc | Element_Throw | Precondition_Violation

text \<open>
  Every call of a constructor, an assignment operator or a destructor of \<^verbatim>\<open>T\<close> is
  recorded, in order, in a history.  The value carried by an event is the value of the
  object constructed, assigned or destroyed; \<open>Raised\<close> records a call that threw.
\<close>

datatype 'a event =
    Constructed 'a
  | Value_Constructed 'a
  | Copy_Constructed 'a
  | Move_Constructed 'a
  | Copy_Assigned 'a
  | Move_Assigned 'a
  | Destroyed 'a
  | Raised

text \<open>
  What the code needs to know about \<^verbatim>\<open>T\<close> and about the allocator.  The two flags
  are the type traits \<^verbatim>\<open>std::is_nothrow_move_constructible_v<T>\<close> and
  \<^verbatim>\<open>std::is_copy_constructible_v<T>\<close>.  Whether a call throws may depend on
  everything that happened before (the history) and on the value involved, which covers
  an instrumented type that throws on a chosen invocation count.  A copy yields an
  object of the same value and leaves its source alone; a move yields an object of the
  source's value and leaves \<open>moved_from\<close> of it in the source; \<open>default_value\<close> is the
  value of \<^verbatim>\<open>T()\<close>.  Destructors do not throw.
\<close>

record 'a env =
  nothrow_move_constructible :: bool
  copy_constructible :: bool
  alloc_fails :: "'a event list \<Rightarrow> nat \<Rightarrow> bool"
  ctor_raises :: "'a event list \<Rightarrow> 'a \<Rightarrow> bool"
  value_ctor_raises :: "'a event list \<Rightarrow> bool"
  copy_ctor_raises :: "'a event list \<Rightarrow> 'a \<Rightarrow> bool"
  move_ctor_raises :: "'a event list \<Rightarrow> 'a \<Rightarrow> bool"
  copy_assign_raises :: "'a event list \<Rightarrow> 'a \<Rightarrow> bool"
  move_assign_raises :: "'a event list \<Rightarrow> 'a \<Rightarrow> bool"
  default_value :: 'a
  moved_from :: "'a \<Rightarrow> 'a"

text \<open>
  A move constructor that the trait reports as non-throwing does not throw
  (\<^verbatim>\<open>noexcept\<close>).
\<close>

definition move_ctor_throws :: "'a env \<Rightarrow> 'a event list \<Rightarrow> 'a \<Rightarrow> bool" where
  "move_ctor_throws T h x = (\<not> nothrow_move_constructible T \<and> move_ctor_raises T h x)"

text \<open>
  The constructor arguments \<^verbatim>\<open>Args&&... args\<close> of \<^verbatim>\<open>EmplaceBack\<close> and
  \<^verbatim>\<open>Emplace\<close> (and the \<^verbatim>\<open>Ref&& value\<close> of \<^verbatim>\<open>PushBack\<close> and \<^verbatim>\<open>Insert\<close>) are passed
  by reference.  \<open>Val x\<close> stands for arguments that do not refer into the vector and from
  which \<^verbatim>\<open>T(args...)\<close> builds the value \<open>x\<close>; \<open>Elem j\<close> is an lvalue reference to the
  vector's own element \<open>j\<close>, as in \<^verbatim>\<open>v.Insert(v.begin(), v[2])\<close>, from which
  \<^verbatim>\<open>T(args...)\<close> is the copy constructor applied to whatever that slot holds when the
  constructor runs.  An rvalue reference to an own element, as in
  \<^verbatim>\<open>v.PushBack(std::move(v[0]))\<close>, is not covered.
\<close>

datatype 'a arg = Val 'a | Elem nat

section \<open>Raw storage\<close>

text \<open>
  The region \<^verbatim>\<open>buffer_\<close> points to is a list of slots: \<open>None\<close> is uninitialised
  storage, \<open>Some x\<close> a live object of value \<open>x\<close>.  The null pointer is the empty list.
  The members \<^verbatim>\<open>buffer_\<close>, \<^verbatim>\<open>capacity_\<close>, \<^verbatim>\<open>data_\<close> and \<^verbatim>\<open>size_\<close> are written
  \<open>m_buffer\<close>, \<open>m_capacity\<close>, \<open>m_data\<close> and \<open>m_size\<close>.  A pointer into a buffer is its
  offset from the start of the buffer; \<^verbatim>\<open>size_t\<close> is \<open>nat\<close> (a buffer of \<open>2 ^ 63\<close>
  elements cannot be allocated, so \<^verbatim>\<open>size_ * 2\<close> does not wrap).
\<close>

record 'a RawMemory =
  m_buffer :: "'a option list"
  m_capacity :: nat

definition slot_get :: "'a option list \<Rightarrow> nat \<Rightarrow> 'a option" where
  "slot_get buf i = (if i < length buf then buf ! i else None)"

definition Allocate :: "'a env \<Rightarrow> 'a event list \<Rightarrow> nat \<Rightarrow> error + 'a option list" where
  "Allocate T h n =
     (if n \<noteq> 0 then (if alloc_fails T h n then Inl Bad_Alloc else Inr (replicate n None))
      else Inr [])"

definition RawMemory_default :: "'a RawMemory" where
  "RawMemory_default = \<lparr>m_buffer = [], m_capacity = 0\<rparr>"

definition RawMemory_ctor :: "'a env \<Rightarrow> 'a event list \<Rightarrow> nat \<Rightarrow> error + 'a RawMemory" where
  "RawMemory_ctor T h capacity =
     (case Allocate T h capacity of
        Inl e \<Rightarrow> Inl e
      | Inr buf \<Rightarrow> Inr \<lparr>m_buffer = buf, m_capacity = capacity\<rparr>)"

text \<open>The move constructor: the pair is the new block and what is left of \<open>other\<close>.\<close>

definition RawMemory_move_ctor :: "'a RawMemory \<Rightarrow> 'a RawMemory \<times> 'a RawMemory" where
  "RawMemory_move_ctor other =
     (\<lparr>m_buffer = m_buffer other, m_capacity = m_capacity other\<rparr>,
      \<lparr>m_buffer = [], m_capacity = 0\<rparr>)"

text \<open>\<^verbatim>\<open>operator+\<close> with its assertion; the result is the offset.\<close>

definition RawMemory_plus :: "'a RawMemory \<Rightarrow> nat \<Rightarrow> error + nat" where
  "RawMemory_plus m offset =
     (if offset \<le> m_capacity m then Inr offset else Inl Precondition_Violation)"

text \<open>\<^verbatim>\<open>operator[]\<close> with its assertion; the reference is the index of the slot.\<close>

definition RawMemory_index :: "'a RawMemory \<Rightarrow> nat \<Rightarrow> error + nat" where
  "RawMemory_index m i =
     (if i < m_capacity m then Inr i else Inl Precondition_Violation)"

definition RawMemory_Swap :: "'a RawMemory \<Rightarrow> 'a RawMemory \<Rightarrow> 'a RawMemory \<times> 'a RawMemory" where
  "RawMemory_Swap m other =
     (\<lparr>m_buffer = m_buffer other, m_capacity = m_capacity other\<rparr>,
      \<lparr>m_buffer = m_buffer m, m_capacity = m_capacity m\<rparr>)"

section \<open>The standard algorithms the vector calls\<close>

text \<open>
  Each follows the loop the C++ standard describes for it.  A source or destination
  range is a buffer with the offset of the range's first slot.
\<close>

fun destroy_n ::
  "'a option list \<Rightarrow> nat \<Rightarrow> nat \<Rightarrow> 'a event list \<Rightarrow>
     (error + unit) \<times> 'a option list \<times> 'a event list" where
  "destroy_n buf first 0 h = (Inr (), buf, h)"
| "destroy_n buf first (Suc n) h =
     (case slot_get buf first of
        None \<Rightarrow> (Inl Precondition_Violation, buf, h)
      | Some x \<Rightarrow> destroy_n (buf[first := None]) (Suc first) n (h @ [Destroyed x]))"

text \<open>
  The loops of the \<^verbatim>\<open>uninitialized_*\<close> algorithms also return \<open>current\<close>, the
  position they reached, which the handler needs.
\<close>

fun uninitialized_copy_loop ::
  "'a env \<Rightarrow> 'a option list \<Rightarrow> nat \<Rightarrow> nat \<Rightarrow> 'a option list \<Rightarrow> nat \<Rightarrow> 'a event list \<Rightarrow>
     (error + unit) \<times> 'a option list \<times> nat \<times> 'a event list" where
  "uninitialized_copy_loop T src first 0 dst current h = (Inr (), dst, current, h)"
| "uninitialized_copy_loop T src first (Suc count) dst current h =
     (case slot_get src first of
        None \<Rightarrow> (Inl Precondition_Violation, dst, current, h)
      | Some x \<Rightarrow>
          if length dst \<le> current then (Inl Precondition_Violation, dst, current, h)
          else if copy_ctor_raises T h x then (Inl Element_Throw, dst, current, h @ [Raised])
          else uninitialized_copy_loop T src (Suc first) count
                 (dst[current := Some x]) (Suc current) (h @ [Copy_Constructed x]))"

text \<open>
  On an exception the objects already constructed, \<open>[d_first, current)\<close>, are destroyed
  and the exception is thrown again.
\<close>

definition uninitialized_copy_n ::
  "'a env \<Rightarrow> 'a option list \<Rightarrow> nat \<Rightarrow> nat \<Rightarrow> 'a option list \<Rightarrow> nat \<Rightarrow> 'a event list \<Rightarrow>
     (error + unit) \<times> 'a option list \<times> 'a event list" where
  "uninitialized_copy_n T src first count dst d_first h =
     (case uninitialized_copy_loop T src first count dst d_first h of
        (Inr u, dst1, current, h1) \<Rightarrow> (Inr (), dst1, h1)
      | (Inl e, dst1, current, h1) \<Rightarrow>
          if e = Precondition_Violation then (Inl e, dst1, h1)
          else (case destroy_n dst1 d_first (current - d_first) h1 of
                  (r, dst2, h2) \<Rightarrow> (Inl e, dst2, h2)))"

fun uninitialized_move_loop ::
  "'a env \<Rightarrow> 'a option list \<Rightarrow> nat \<Rightarrow> nat \<Rightarrow> 'a option list \<Rightarrow> nat \<Rightarrow> 'a event list \<Rightarrow>
     (error + unit) \<times> 'a option list \<times> 'a option list \<times> nat \<times> 'a event list" where
  "uninitialized_move_loop T src first 0 dst current h = (Inr (), src, dst, current, h)"
| "uninitialized_move_loop T src first (Suc count) dst current h =
     (case slot_get src first of
        None \<Rightarrow> (Inl Precondition_Violation, src, dst, current, h)
      | Some x \<Rightarrow>
          if length dst \<le> current then (Inl Precondition_Violation, src, dst, current, h)
          else if move_ctor_throws T h x then
            (Inl Element_Throw, src, dst, current, h @ [Raised])
          else uninitialized_move_loop T (src[first := Some (moved_from T x)]) (Suc first) count
                 (dst[current := Some x]) (Suc current) (h @ [Move_Constructed x]))"

definition uninitialized_move_n ::
  "'a env \<Rightarrow> 'a option list \<Rightarrow> nat \<Rightarrow> nat \<Rightarrow> 'a option list \<Rightarrow> nat \<Rightarrow> 'a event list \<Rightarrow>
     (error + unit) \<times> 'a option list \<times> 'a option list \<times> 'a event list" where
  "uninitialized_move_n T src first count dst d_first h =
     (case uninitialized_move_loop T src first count dst d_first h of
        (Inr u, src1, dst1, current, h1) \<Rightarrow> (Inr (), src1, dst1, h1)
      | (Inl e, src1, dst1, current, h1) \<Rightarrow>
          if e = Precondition_Violation then (Inl e, src1, dst1, h1)
          else (case destroy_n dst1 d_first (current - d_first) h1 of
                  (r, dst2, h2) \<Rightarrow> (Inl e, src1, dst2, h2)))"

fun uninitialized_value_construct_loop ::
  "'a env \<Rightarrow> 'a option list \<Rightarrow> nat \<Rightarrow> nat \<Rightarrow> 'a event list \<Rightarrow>
     (error + unit) \<times> 'a option list \<times> nat \<times> 'a event list" where
  "uninitialized_value_construct_loop T buf current 0 h = (Inr (), buf, current, h)"
| "uninitialized_value_construct_loop T buf current (Suc count) h =
     (if length buf \<le> current then (Inl Precondition_Violation, buf, current, h)
      else if value_ctor_raises T h then (Inl Element_Throw, buf, current, h @ [Raised])
      else uninitialized_value_construct_loop T (buf[current := Some (default_value T)])
             (Suc current) count (h @ [Value_Constructed (default_value T)]))"

definition uninitialized_value_construct_n ::
  "'a env \<Rightarrow> 'a option list \<Rightarrow> nat \<Rightarrow> nat \<Rightarrow> 'a event list \<Rightarrow>
     (error + unit) \<times> 'a option list \<times> 'a event list" where
  "uninitialized_value_construct_n T buf first count h =
     (case uninitialized_value_construct_loop T buf first count h of
        (Inr u, buf1, current, h1) \<Rightarrow> (Inr (), buf1, h1)
      | (Inl e, buf1, current, h1) \<Rightarrow>
          if e = Precondition_Violation then (Inl e, buf1, h1)
          else (case destroy_n buf1 first (current - first) h1 of
                  (r, buf2, h2) \<Rightarrow> (Inl e, buf2, h2)))"

text \<open>\<^verbatim>\<open>std::copy_n\<close>: copy assignment, slot by slot, onto live objects.\<close>

fun copy_n ::
  "'a env \<Rightarrow> 'a option list \<Rightarrow> nat \<Rightarrow> nat \<Rightarrow> 'a option list \<Rightarrow> nat \<Rightarrow> 'a event list \<Rightarrow>
     (error + unit) \<times> 'a option list \<times> 'a event list" where
  "copy_n T src first 0 dst result h = (Inr (), dst, h)"
| "copy_n T src first (Suc count) dst result h =
     (case slot_get src first of
        None \<Rightarrow> (Inl Precondition_Violation, dst, h)
      | Some x \<Rightarrow>
          (case slot_get dst result of
             None \<Rightarrow> (Inl Precondition_Violation, dst, h)
           | Some y \<Rightarrow>
               if copy_assign_raises T h x then (Inl Element_Throw, dst, h @ [Raised])
               else copy_n T src (Suc first) count (dst[result := Some x]) (Suc result)
                      (h @ [Copy_Assigned x])))"

text \<open>
  \<^verbatim>\<open>std::move(first, last, d_first)\<close> within one buffer, front to back:
  \<^verbatim>\<open>*d_first++ = std::move(*first++)\<close>.  The loop takes the number of steps.
\<close>

fun move_loop ::
  "'a env \<Rightarrow> 'a option list \<Rightarrow> nat \<Rightarrow> nat \<Rightarrow> nat \<Rightarrow> 'a event list \<Rightarrow>
     (error + unit) \<times> 'a option list \<times> 'a event list" where
  "move_loop T buf first 0 d_first h = (Inr (), buf, h)"
| "move_loop T buf first (Suc count) d_first h =
     (case slot_get buf first of
        None \<Rightarrow> (Inl Precondition_Violation, buf, h)
      | Some x \<Rightarrow>
          (case slot_get buf d_first of
             None \<Rightarrow> (Inl Precondition_Violation, buf, h)
           | Some y \<Rightarrow>
               if move_assign_raises T h x then (Inl Element_Throw, buf, h @ [Raised])
               else move_loop T (buf[d_first := Some x, first := Some (moved_from T x)])
                      (Suc first) count (Suc d_first) (h @ [Move_Assigned x])))"

definition std_move ::
  "'a env \<Rightarrow> 'a option list \<Rightarrow> nat \<Rightarrow> nat \<Rightarrow> nat \<Rightarrow> 'a event list \<Rightarrow>
     (error + unit) \<times> 'a option list \<times> 'a event list" where
  "std_move T buf first lst d_first h =
     (if lst < first then (Inl Precondition_Violation, buf, h)
      else move_loop T buf first (lst - first) d_first h)"

text \<open>
  \<^verbatim>\<open>std::move_backward(first, last, d_last)\<close> within one buffer, back to front:
  \<^verbatim>\<open>*(--d_last) = std::move(*(--last))\<close>.
\<close>

fun move_backward_loop ::
  "'a env \<Rightarrow> 'a option list \<Rightarrow> nat \<Rightarrow> nat \<Rightarrow> nat \<Rightarrow> 'a event list \<Rightarrow>
     (error + unit) \<times> 'a option list \<times> 'a event list" where
  "move_backward_loop T buf 0 lst d_last h = (Inr (), buf, h)"
| "move_backward_loop T buf (Suc count) lst d_last h =
     (if lst = 0 \<or> d_last = 0 then (Inl Precondition_Violation, buf, h)
      else
        (case slot_get buf (lst - 1) of
           None \<Rightarrow> (Inl Precondition_Violation, buf, h)
         | Some x \<Rightarrow>
             (case slot_get buf (d_last - 1) of
                None \<Rightarrow> (Inl Precondition_Violation, buf, h)
              | Some y \<Rightarrow>
                  if move_assign_raises T h x then (Inl Element_Throw, buf, h @ [Raised])
                  else move_backward_loop T
                         (buf[d_last - 1 := Some x, lst - 1 := Some (moved_from T x)])
                         count (lst - 1) (d_last - 1) (h @ [Move_Assigned x]))))"

definition move_backward ::
  "'a env \<Rightarrow> 'a option list \<Rightarrow> nat \<Rightarrow> nat \<Rightarrow> nat \<Rightarrow> 'a event list \<Rightarrow>
     (error + unit) \<times> 'a option list \<times> 'a event list" where
  "move_backward T buf first lst d_last h =
     (if lst < first then (Inl Precondition_Violation, buf, h)
      else move_backward_loop T buf (lst - first) lst d_last h)"

text \<open>One destructor call, \<^verbatim>\<open>p->~T()\<close>.\<close>

definition destroy_at ::
  "'a option list \<Rightarrow> nat \<Rightarrow> 'a event list \<Rightarrow> (error + unit) \<times> 'a option list \<times> 'a event list" where
  "destroy_at buf p h =
     (case slot_get buf p of
        None \<Rightarrow> (Inl Precondition_Violation, buf, h)
      | Some x \<Rightarrow> (Inr (), buf[p := None], h @ [Destroyed x]))"

text \<open>
  The temporary or new object \<^verbatim>\<open>T(std::forward<Args>(args)...)\<close>; \<open>own\<close> is the
  vector's buffer at the moment the constructor runs, which an \<open>Elem\<close> argument reads.
\<close>

definition construct_from ::
  "'a env \<Rightarrow> 'a arg \<Rightarrow> 'a option list \<Rightarrow> 'a event list \<Rightarrow> (error + 'a) \<times> 'a event list" where
  "construct_from T a own h =
     (case a of
        Val x \<Rightarrow>
          if ctor_raises T h x then (Inl Element_Throw, h @ [Raised])
          else (Inr x, h @ [Constructed x])
      | Elem j \<Rightarrow>
          (case slot_get own j of
             None \<Rightarrow> (Inl Precondition_Violation, h)
           | Some x \<Rightarrow>
               if copy_ctor_raises T h x then (Inl Element_Throw, h @ [Raised])
               else (Inr x, h @ [Copy_Constructed x])))"

text \<open>\<^verbatim>\<open>new (p) T(std::forward<Args>(args)...)\<close> into slot \<open>p\<close> of \<open>buf\<close>.\<close>

definition placement_new ::
  "'a env \<Rightarrow> 'a arg \<Rightarrow> 'a option list \<Rightarrow> 'a option list \<Rightarrow> nat \<Rightarrow> 'a event list \<Rightarrow>
     (error + unit) \<times> 'a option list \<times> 'a event list" where
  "placement_new T a own buf p h =
     (if length buf \<le> p then (Inl Precondition_Violation, buf, h)
      else
        (case construct_from T a own h of
           (Inl e, h1) \<Rightarrow> (Inl e, buf, h1)
         | (Inr x, h1) \<Rightarrow> (Inr (), buf[p := Some x], h1)))"

section \<open>The vector\<close>

record 'a Vector =
  m_data :: "'a RawMemory"
  m_size :: nat

definition set_buffer :: "'a Vector \<Rightarrow> 'a option list \<Rightarrow> 'a Vector" where
  "set_buffer v buf = v\<lparr>m_data := (m_data v)\<lparr>m_buffer := buf\<rparr>\<rparr>"

definition Vector_default :: "'a Vector" where
  "Vector_default = \<lparr>m_data = RawMemory_default, m_size = 0\<rparr>"

definition Size :: "'a Vector \<Rightarrow> nat" where
  "Size v = m_size v"

definition Capacity :: "'a Vector \<Rightarrow> nat" where
  "Capacity v = m_capacity (m_data v)"

text \<open>
  \<^verbatim>\<open>CopyN\<close>: the branch is an \<^verbatim>\<open>if constexpr\<close> on the two traits.  The result holds
  the source buffer too, since moving changes it.
\<close>

definition CopyN ::
  "'a env \<Rightarrow> 'a option list \<Rightarrow> nat \<Rightarrow> nat \<Rightarrow> 'a option list \<Rightarrow> nat \<Rightarrow> 'a event list \<Rightarrow>
     (error + unit) \<times> 'a option list \<times> 'a option list \<times> 'a event list" where
  "CopyN T src first n dst d_first h =
     (if nothrow_move_constructible T \<or> \<not> copy_constructible T then
        uninitialized_move_n T src first n dst d_first h
      else
        (case uninitialized_copy_n T src first n dst d_first h of
           (r, dst1, h1) \<Rightarrow> (r, src, dst1, h1)))"

text \<open>\<^verbatim>\<open>explicit Vector(size_t size)\<close>; when a constructor throws, no vector exists.\<close>

definition Vector_sized ::
  "'a env \<Rightarrow> nat \<Rightarrow> 'a event list \<Rightarrow> (error + 'a Vector) \<times> 'a event list" where
  "Vector_sized T n h =
     (case RawMemory_ctor T h n of
        Inl e \<Rightarrow> (Inl e, h)
      | Inr d \<Rightarrow>
          (case uninitialized_value_construct_n T (m_buffer d) 0 n h of
             (Inl e, buf, h1) \<Rightarrow> (Inl e, h1)
           | (Inr u, buf, h1) \<Rightarrow> (Inr \<lparr>m_data = d\<lparr>m_buffer := buf\<rparr>, m_size = n\<rparr>, h1)))"

text \<open>\<^verbatim>\<open>~Vector()\<close>: the elements are destroyed, then the block is released.\<close>

definition Vector_dtor :: "'a Vector \<Rightarrow> 'a event list \<Rightarrow> (error + unit) \<times> 'a event list" where
  "Vector_dtor v h =
     (case destroy_n (m_buffer (m_data v)) 0 (m_size v) h of (r, buf, h1) \<Rightarrow> (r, h1))"

text \<open>\<^verbatim>\<open>Vector(const Vector& other)\<close>.\<close>

definition Vector_copy_ctor ::
  "'a env \<Rightarrow> 'a Vector \<Rightarrow> 'a event list \<Rightarrow> (error + 'a Vector) \<times> 'a event list" where
  "Vector_copy_ctor T other h =
     (case RawMemory_ctor T h (m_size other) of
        Inl e \<Rightarrow> (Inl e, h)
      | Inr d \<Rightarrow>
          (case uninitialized_copy_n T (m_buffer (m_data other)) 0 (m_size other)
                  (m_buffer d) 0 h of
             (Inl e, buf, h1) \<Rightarrow> (Inl e, h1)
           | (Inr u, buf, h1) \<Rightarrow>
               (Inr \<lparr>m_data = d\<lparr>m_buffer := buf\<rparr>, m_size = m_size other\<rparr>, h1)))"

definition Swap :: "'a Vector \<Rightarrow> 'a Vector \<Rightarrow> 'a Vector \<times> 'a Vector" where
  "Swap v other =
     (case RawMemory_Swap (m_data v) (m_data other) of
        (d, od) \<Rightarrow> (\<lparr>m_data = d, m_size = m_size other\<rparr>, \<lparr>m_data = od, m_size = m_size v\<rparr>))"

text \<open>\<^verbatim>\<open>operator[]\<close> of the vector, with both assertions.\<close>

definition Vector_index :: "'a Vector \<Rightarrow> nat \<Rightarrow> error + nat" where
  "Vector_index v i =
     (if i < m_size v then RawMemory_index (m_data v) i else Inl Precondition_Violation)"

subsection \<open>Operations on two vectors: a store of vector objects\<close>

text \<open>
  The assignment operators compare \<^verbatim>\<open>this\<close> with the address of their argument, so
  the vectors they work on live in a store, a map from addresses to vector objects.
\<close>

type_synonym 'a store = "nat \<Rightarrow> 'a Vector"

text \<open>\<^verbatim>\<open>Vector(Vector&& other) noexcept\<close>, building the object at \<open>this\<close>.\<close>

definition Vector_move_ctor :: "'a store \<Rightarrow> nat \<Rightarrow> nat \<Rightarrow> 'a store" where
  "Vector_move_ctor s this other =
     (case RawMemory_move_ctor (m_data (s other)) of
        (d, od) \<Rightarrow>
          s(other := \<lparr>m_data = od, m_size = 0\<rparr>,
            this := \<lparr>m_data = d, m_size = m_size (s other)\<rparr>))"

definition Vector_Swap :: "'a store \<Rightarrow> nat \<Rightarrow> nat \<Rightarrow> 'a store" where
  "Vector_Swap s this other =
     (case Swap (s this) (s other) of (v, ov) \<Rightarrow> s(other := ov, this := v))"

text \<open>\<^verbatim>\<open>Vector& operator=(Vector&& rhs) noexcept\<close>.\<close>

definition Vector_move_assign :: "'a store \<Rightarrow> nat \<Rightarrow> nat \<Rightarrow> 'a store" where
  "Vector_move_assign s this rhs = (if this \<noteq> rhs then Vector_Swap s this rhs else s)"

text \<open>
  \<^verbatim>\<open>Vector& operator=(const Vector& rhs)\<close>.  The local \<^verbatim>\<open>rhs_copy\<close> is destroyed when
  its block ends, after the swap.
\<close>

definition Vector_copy_assign ::
  "'a env \<Rightarrow> 'a store \<Rightarrow> nat \<Rightarrow> nat \<Rightarrow> 'a event list \<Rightarrow>
     (error + unit) \<times> 'a store \<times> 'a event list" where
  "Vector_copy_assign T s this rhs h =
     (if this \<noteq> rhs then
        (if m_size (s rhs) > m_capacity (m_data (s this)) then
           (case Vector_copy_ctor T (s rhs) h of
              (Inl e, h1) \<Rightarrow> (Inl e, s, h1)
            | (Inr rhs_copy, h1) \<Rightarrow>
                (case Swap (s this) rhs_copy of
                   (v1, rhs_copy1) \<Rightarrow>
                     (case Vector_dtor rhs_copy1 h1 of (r, h2) \<Rightarrow> (r, s(this := v1), h2))))
         else if m_size (s this) > m_size (s rhs) then
           (case copy_n T (m_buffer (m_data (s rhs))) 0 (m_size (s rhs))
                   (m_buffer (m_data (s this))) 0 h of
              (Inl e, b1, h1) \<Rightarrow> (Inl e, s(this := set_buffer (s this) b1), h1)
            | (Inr u, b1, h1) \<Rightarrow>
                (case RawMemory_plus (m_data (s this)) (m_size (s rhs)) of
                   Inl e \<Rightarrow> (Inl e, s(this := set_buffer (s this) b1), h1)
                 | Inr p \<Rightarrow>
                     (case destroy_n b1 p (m_size (s this) - m_size (s rhs)) h1 of
                        (Inl e, b2, h2) \<Rightarrow> (Inl e, s(this := set_buffer (s this) b2), h2)
                      | (Inr u, b2, h2) \<Rightarrow>
                          (Inr (),
                           s(this := (set_buffer (s this) b2)\<lparr>m_size := m_size (s rhs)\<rparr>), h2))))
         else
           (case copy_n T (m_buffer (m_data (s rhs))) 0 (m_size (s this))
                   (m_buffer (m_data (s this))) 0 h of
              (Inl e, b1, h1) \<Rightarrow> (Inl e, s(this := set_buffer (s this) b1), h1)
            | (Inr u, b1, h1) \<Rightarrow>
                (case uninitialized_copy_n T (m_buffer (m_data (s rhs))) (m_size (s this))
                        (m_size (s rhs) - m_size (s this)) b1 0 h1 of
                   (Inl e, b2, h2) \<Rightarrow> (Inl e, s(this := set_buffer (s this) b2), h2)
                 | (Inr u, b2, h2) \<Rightarrow>
                     (Inr (),
                      s(this := (set_buffer (s this) b2)\<lparr>m_size := m_size (s rhs)\<rparr>), h2))))
      else (Inr (), s, h))"

subsection \<open>Operations on one vector\<close>

text \<open>
  Each takes the vector and the history and returns the outcome, the vector as the call
  leaves it (also when it throws) and the history.  An iterator is an offset from
  \<^verbatim>\<open>begin()\<close>, a reference to an element is its index.
\<close>

text \<open>
  The branch \<^verbatim>\<open>size_ == Capacity()\<close> of \<^verbatim>\<open>EmplaceBack\<close>.  When \<^verbatim>\<open>CopyN\<close> throws,
  nothing destroys the object already built in \<^verbatim>\<open>new_data\<close>; the block itself is
  released by \<^verbatim>\<open>~RawMemory\<close>.
\<close>

definition EmplaceBack_grow ::
  "'a env \<Rightarrow> 'a arg \<Rightarrow> 'a Vector \<Rightarrow> 'a event list \<Rightarrow>
     (error + unit) \<times> 'a Vector \<times> 'a event list" where
  "EmplaceBack_grow T a v h =
     (case RawMemory_ctor T h (if m_size v = 0 then 1 else m_size v * 2) of
        Inl e \<Rightarrow> (Inl e, v, h)
      | Inr new_data \<Rightarrow>
          (case RawMemory_plus new_data (m_size v) of
             Inl e \<Rightarrow> (Inl e, v, h)
           | Inr p \<Rightarrow>
               (case placement_new T a (m_buffer (m_data v)) (m_buffer new_data) p h of
                  (Inl e, nb1, h1) \<Rightarrow> (Inl e, v, h1)
                | (Inr u, nb1, h1) \<Rightarrow>
                    (case CopyN T (m_buffer (m_data v)) 0 (m_size v) nb1 0 h1 of
                       (Inl e, old2, nb2, h2) \<Rightarrow> (Inl e, set_buffer v old2, h2)
                     | (Inr u, old2, nb2, h2) \<Rightarrow>
                         (case destroy_n old2 0 (m_size v) h2 of
                            (Inl e, old3, h3) \<Rightarrow> (Inl e, set_buffer v old3, h3)
                          | (Inr u, old3, h3) \<Rightarrow>
                              (case RawMemory_Swap ((m_data v)\<lparr>m_buffer := old3\<rparr>)
                                      (new_data\<lparr>m_buffer := nb2\<rparr>) of
                                 (d, nd) \<Rightarrow> (Inr (), v\<lparr>m_data := d\<rparr>, h3)))))))"

definition EmplaceBack ::
  "'a env \<Rightarrow> 'a arg \<Rightarrow> 'a Vector \<Rightarrow> 'a event list \<Rightarrow>
     (error + nat) \<times> 'a Vector \<times> 'a event list" where
  "EmplaceBack T a v h =
     (case
        (if m_size v = Capacity v then EmplaceBack_grow T a v h
         else
           (case RawMemory_plus (m_data v) (m_size v) of
              Inl e \<Rightarrow> (Inl e, v, h)
            | Inr p \<Rightarrow>
                (case placement_new T a (m_buffer (m_data v)) (m_buffer (m_data v)) p h of
                   (Inl e, b1, h1) \<Rightarrow> (Inl e, v, h1)
                 | (Inr u, b1, h1) \<Rightarrow> (Inr (), set_buffer v b1, h1))))
      of
        (Inl e, v1, h1) \<Rightarrow> (Inl e, v1, h1)
      | (Inr u, v1, h1) \<Rightarrow>
          (Vector_index (v1\<lparr>m_size := m_size v1 + 1\<rparr>) (m_size v1 + 1 - 1),
           v1\<lparr>m_size := m_size v1 + 1\<rparr>, h1))"

definition PushBack ::
  "'a env \<Rightarrow> 'a arg \<Rightarrow> 'a Vector \<Rightarrow> 'a event list \<Rightarrow>
     (error + unit) \<times> 'a Vector \<times> 'a event list" where
  "PushBack T a v h =
     (case EmplaceBack T a v h of
        (Inl e, v1, h1) \<Rightarrow> (Inl e, v1, h1)
      | (Inr r, v1, h1) \<Rightarrow> (Inr (), v1, h1))"

text \<open>
  \<^verbatim>\<open>data_[--size_].~T()\<close>: on an empty vector the decrement wraps round and the
  assertion of \<^verbatim>\<open>RawMemory::operator[]\<close> fails.
\<close>

definition PopBack ::
  "'a Vector \<Rightarrow> 'a event list \<Rightarrow> (error + unit) \<times> 'a Vector \<times> 'a event list" where
  "PopBack v h =
     (if m_size v = 0 then (Inl Precondition_Violation, v, h)
      else
        (case RawMemory_index (m_data v) (m_size v - 1) of
           Inl e \<Rightarrow> (Inl e, v\<lparr>m_size := m_size v - 1\<rparr>, h)
         | Inr i \<Rightarrow>
             (case destroy_at (m_buffer (m_data v)) i h of
                (r, b1, h1) \<Rightarrow> (r, (set_buffer v b1)\<lparr>m_size := m_size v - 1\<rparr>, h1))))"

text \<open>
  The branch \<^verbatim>\<open>size_ == Capacity()\<close> of \<^verbatim>\<open>Emplace\<close>, with its two handlers.  The
  count \<^verbatim>\<open>size_ - distance\<close> is unsigned: past the end it wraps round to a range no
  buffer holds.
\<close>

definition Emplace_grow ::
  "'a env \<Rightarrow> nat \<Rightarrow> 'a arg \<Rightarrow> 'a Vector \<Rightarrow> 'a event list \<Rightarrow>
     (error + unit) \<times> 'a Vector \<times> 'a event list" where
  "Emplace_grow T distance a v h =
     (case RawMemory_ctor T h (if m_size v = 0 then 1 else m_size v * 2) of
        Inl e \<Rightarrow> (Inl e, v, h)
      | Inr new_data \<Rightarrow>
          (case RawMemory_plus new_data distance of
             Inl e \<Rightarrow> (Inl e, v, h)
           | Inr tmp \<Rightarrow>
               (case placement_new T a (m_buffer (m_data v)) (m_buffer new_data) tmp h of
                  (Inl e, nb1, h1) \<Rightarrow> (Inl e, v, h1)
                | (Inr u, nb1, h1) \<Rightarrow>
                    (case CopyN T (m_buffer (m_data v)) 0 distance nb1 0 h1 of
                       (Inl e, old2, nb2, h2) \<Rightarrow>
                         if e = Precondition_Violation then (Inl e, set_buffer v old2, h2)
                         else (case destroy_at nb2 tmp h2 of
                                 (r, nb3, h3) \<Rightarrow> (Inl e, set_buffer v old2, h3))
                     | (Inr u, old2, nb2, h2) \<Rightarrow>
                         (case RawMemory_plus (m_data v) distance of
                            Inl e \<Rightarrow> (Inl e, set_buffer v old2, h2)
                          | Inr q \<Rightarrow>
                              if m_size v < distance then
                                (Inl Precondition_Violation, set_buffer v old2, h2)
                              else
                                (case CopyN T old2 q (m_size v - distance) nb2
                                        (distance + 1) h2 of
                                   (Inl e, old3, nb3, h3) \<Rightarrow>
                                     if e = Precondition_Violation then
                                       (Inl e, set_buffer v old3, h3)
                                     else (case destroy_n nb3 0 (distance + 1) h3 of
                                             (r, nb4, h4) \<Rightarrow> (Inl e, set_buffer v old3, h4))
                                 | (Inr u, old3, nb3, h3) \<Rightarrow>
                                     (case destroy_n old3 0 (m_size v) h3 of
                                        (Inl e, old4, h4) \<Rightarrow> (Inl e, set_buffer v old4, h4)
                                      | (Inr u, old4, h4) \<Rightarrow>
                                          (case RawMemory_Swap ((m_data v)\<lparr>m_buffer := old4\<rparr>)
                                                  (new_data\<lparr>m_buffer := nb3\<rparr>) of
                                             (d, nd) \<Rightarrow> (Inr (), v\<lparr>m_data := d\<rparr>, h4)))))))))"

text \<open>
  The other branch of \<^verbatim>\<open>Emplace\<close>.  Before the end: the last element is moved into
  the slot behind it, the elements from \<open>distance\<close> on are moved one slot up, back to
  front, and only then the temporary \<^verbatim>\<open>T(std::forward<Args>(args)...)\<close> is built,
  move-assigned to slot \<open>distance\<close> and destroyed.
\<close>

definition Emplace_in_place ::
  "'a env \<Rightarrow> nat \<Rightarrow> 'a arg \<Rightarrow> 'a Vector \<Rightarrow> 'a event list \<Rightarrow>
     (error + unit) \<times> 'a Vector \<times> 'a event list" where
  "Emplace_in_place T distance a v h =
     (if distance < m_size v then
        (case RawMemory_plus (m_data v) (m_size v) of
           Inl e \<Rightarrow> (Inl e, v, h)
         | Inr end_it \<Rightarrow>
             (case slot_get (m_buffer (m_data v)) (end_it - 1) of
                None \<Rightarrow> (Inl Precondition_Violation, v, h)
              | Some x \<Rightarrow>
                  if length (m_buffer (m_data v)) \<le> end_it then
                    (Inl Precondition_Violation, v, h)
                  else if move_ctor_throws T h x then (Inl Element_Throw, v, h @ [Raised])
                  else
                    (case move_backward T
                            ((m_buffer (m_data v))
                               [end_it - 1 := Some (moved_from T x), end_it := Some x])
                            distance (end_it - 1) end_it (h @ [Move_Constructed x]) of
                       (Inl e, b2, h2) \<Rightarrow> (Inl e, set_buffer v b2, h2)
                     | (Inr u, b2, h2) \<Rightarrow>
                         (case construct_from T a b2 h2 of
                            (Inl e, h3) \<Rightarrow> (Inl e, set_buffer v b2, h3)
                          | (Inr t, h3) \<Rightarrow>
                              (case RawMemory_index (m_data v) distance of
                                 Inl e \<Rightarrow> (Inl e, set_buffer v b2, h3)
                               | Inr i \<Rightarrow>
                                   (case slot_get b2 i of
                                      None \<Rightarrow> (Inl Precondition_Violation, set_buffer v b2, h3)
                                    | Some y \<Rightarrow>
                                        if move_assign_raises T h3 t then
                                          (Inl Element_Throw, set_buffer v b2,
                                           h3 @ [Raised, Destroyed t])
                                        else
                                          (Inr (), set_buffer v (b2[i := Some t]),
                                           h3 @ [Move_Assigned t,
                                                 Destroyed (moved_from T t)])))))))
      else
        (case RawMemory_plus (m_data v) distance of
           Inl e \<Rightarrow> (Inl e, v, h)
         | Inr p \<Rightarrow>
             (case placement_new T a (m_buffer (m_data v)) (m_buffer (m_data v)) p h of
                (Inl e, b1, h1) \<Rightarrow> (Inl e, v, h1)
              | (Inr u, b1, h1) \<Rightarrow> (Inr (), set_buffer v b1, h1))))"

text \<open>\<^verbatim>\<open>Emplace\<close>: \<open>pos\<close> is the offset \<^verbatim>\<open>pos - data_.GetAddress()\<close>.\<close>

definition Emplace ::
  "'a env \<Rightarrow> nat \<Rightarrow> 'a arg \<Rightarrow> 'a Vector \<Rightarrow> 'a event list \<Rightarrow>
     (error + nat) \<times> 'a Vector \<times> 'a event list" where
  "Emplace T pos a v h =
     (case
        (if m_size v = Capacity v then Emplace_grow T pos a v h
         else Emplace_in_place T pos a v h)
      of
        (Inl e, v1, h1) \<Rightarrow> (Inl e, v1, h1)
      | (Inr u, v1, h1) \<Rightarrow>
          (RawMemory_plus (m_data v1) pos, v1\<lparr>m_size := m_size v1 + 1\<rparr>, h1))"

definition Insert ::
  "'a env \<Rightarrow> nat \<Rightarrow> 'a arg \<Rightarrow> 'a Vector \<Rightarrow> 'a event list \<Rightarrow>
     (error + nat) \<times> 'a Vector \<times> 'a event list" where
  "Insert T pos value v h = Emplace T pos value v h"

text \<open>
  \<^verbatim>\<open>Erase\<close>: \<^verbatim>\<open>std::move(std::next(pos), end(), pos)\<close>, then
  \<^verbatim>\<open>data_[--size_].~T()\<close>.
\<close>

definition Erase ::
  "'a env \<Rightarrow> nat \<Rightarrow> 'a Vector \<Rightarrow> 'a event list \<Rightarrow>
     (error + nat) \<times> 'a Vector \<times> 'a event list" where
  "Erase T pos v h =
     (case RawMemory_plus (m_data v) (m_size v) of
        Inl e \<Rightarrow> (Inl e, v, h)
      | Inr end_it \<Rightarrow>
          (case std_move T (m_buffer (m_data v)) (pos + 1) end_it pos h of
             (Inl e, b1, h1) \<Rightarrow> (Inl e, set_buffer v b1, h1)
           | (Inr u, b1, h1) \<Rightarrow>
               if m_size v = 0 then (Inl Precondition_Violation, set_buffer v b1, h1)
               else
                 (case RawMemory_index (m_data v) (m_size v - 1) of
                    Inl e \<Rightarrow> (Inl e, (set_buffer v b1)\<lparr>m_size := m_size v - 1\<rparr>, h1)
                  | Inr i \<Rightarrow>
                      (case destroy_at b1 i h1 of
                         (Inl e, b2, h2) \<Rightarrow>
                           (Inl e, (set_buffer v b2)\<lparr>m_size := m_size v - 1\<rparr>, h2)
                       | (Inr u, b2, h2) \<Rightarrow>
                           (Inr pos, (set_buffer v b2)\<lparr>m_size := m_size v - 1\<rparr>, h2)))))"

definition Reserve ::
  "'a env \<Rightarrow> nat \<Rightarrow> 'a Vector \<Rightarrow> 'a event list \<Rightarrow>
     (error + unit) \<times> 'a Vector \<times> 'a event list" where
  "Reserve T new_capacity v h =
     (if new_capacity \<le> m_capacity (m_data v) then (Inr (), v, h)
      else
        (case RawMemory_ctor T h new_capacity of
           Inl e \<Rightarrow> (Inl e, v, h)
         | Inr new_data \<Rightarrow>
             (case CopyN T (m_buffer (m_data v)) 0 (m_size v) (m_buffer new_data) 0 h of
                (Inl e, old1, nb1, h1) \<Rightarrow> (Inl e, set_buffer v old1, h1)
              | (Inr u, old1, nb1, h1) \<Rightarrow>
                  (case destroy_n old1 0 (m_size v) h1 of
                     (Inl e, old2, h2) \<Rightarrow> (Inl e, set_buffer v old2, h2)
                   | (Inr u, old2, h2) \<Rightarrow>
                       (case RawMemory_Swap ((m_data v)\<lparr>m_buffer := old2\<rparr>)
                               (new_data\<lparr>m_buffer := nb1\<rparr>) of
                          (d, nd) \<Rightarrow> (Inr (), v\<lparr>m_data := d\<rparr>, h2))))))"

definition Resize ::
  "'a env \<Rightarrow> nat \<Rightarrow> 'a Vector \<Rightarrow> 'a event list \<Rightarrow>
     (error + unit) \<times> 'a Vector \<times> 'a event list" where
  "Resize T new_size v h =
     (if new_size < m_size v then
        (case RawMemory_plus (m_data v) new_size of
           Inl e \<Rightarrow> (Inl e, v, h)
         | Inr p \<Rightarrow>
             (case destroy_n (m_buffer (m_data v)) p (m_size v - new_size) h of
                (Inl e, b1, h1) \<Rightarrow> (Inl e, set_buffer v b1, h1)
              | (Inr u, b1, h1) \<Rightarrow> (Inr (), (set_buffer v b1)\<lparr>m_size := new_size\<rparr>, h1)))
      else
        (case Reserve T new_size v h of
           (Inl e, v1, h1) \<Rightarrow> (Inl e, v1, h1)
         | (Inr u, v1, h1) \<Rightarrow>
             (case RawMemory_plus (m_data v1) (m_size v1) of
                Inl e \<Rightarrow> (Inl e, v1, h1)
              | Inr p \<Rightarrow>
                  (case uninitialized_value_construct_n T (m_buffer (m_data v1)) p
                          (new_size - m_size v1) h1 of
                     (Inl e, b2, h2) \<Rightarrow> (Inl e, set_buffer v1 b2, h2)
                   | (Inr u, b2, h2) \<Rightarrow>
                       (Inr (), (set_buffer v1 b2)\<lparr>m_size := new_size\<rparr>, h2)))))"

section \<open>The abstract view of a vector\<close>

text \<open>
  The sequence a vector holds, and the invariant of the data model: the capacity is the
  number of slots, the size does not exceed it, the slots below the size hold live
  objects and the slots from the size on hold none.
\<close>

definition elems :: "'a Vector \<Rightarrow> 'a list" where
  "elems v = map the (take (m_size v) (m_buffer (m_data v)))"

definition Vector_inv :: "'a Vector \<Rightarrow> bool" where
  "Vector_inv v =
     (m_capacity (m_data v) = length (m_buffer (m_data v)) \<and>
      m_size v \<le> m_capacity (m_data v) \<and>
      list_all (\<lambda>s. s \<noteq> None) (take (m_size v) (m_buffer (m_data v))) \<and>
      list_all (\<lambda>s. s = None) (drop (m_size v) (m_buffer (m_data v))))"

text \<open>The vector that holds \<open>xs\<close> in a block of \<open>length xs + spare\<close> slots.\<close>

definition vector_of :: "'a list \<Rightarrow> nat \<Rightarrow> 'a Vector" where
  "vector_of xs spare =
     \<lparr>m_data = \<lparr>m_buffer = map Some xs @ replicate spare None,
                m_capacity = length xs + spare\<rparr>,
      m_size = length xs\<rparr>"

definition empty_store :: "'a store" where
  "empty_store = (\<lambda>a. Vector_default)"

section \<open>Notions used to state the properties\<close>

text \<open>
  An element type and allocator none of whose operations throws (a move constructor
  that is \<^verbatim>\<open>noexcept\<close> counts as not throwing), and the type obtained from a
  given one by switching every throw off while keeping its traits, its default value
  and its moved-from states.
\<close>

definition calm :: "'a env \<Rightarrow> bool" where
  "calm T =
     ((\<forall>h n. \<not> alloc_fails T h n) \<and> (\<forall>h x. \<not> ctor_raises T h x) \<and>
      (\<forall>h. \<not> value_ctor_raises T h) \<and> (\<forall>h x. \<not> copy_ctor_raises T h x) \<and>
      (\<forall>h x. \<not> move_ctor_throws T h x) \<and> (\<forall>h x. \<not> copy_assign_raises T h x) \<and>
      (\<forall>h x. \<not> move_assign_raises T h x))"

definition calmed :: "'a env \<Rightarrow> 'a env" where
  "calmed T =
     T\<lparr>alloc_fails := \<lambda>h n. False, ctor_raises := \<lambda>h x. False,
       value_ctor_raises := \<lambda>h. False, copy_ctor_raises := \<lambda>h x. False,
       move_ctor_raises := \<lambda>h x. False, copy_assign_raises := \<lambda>h x. False,
       move_assign_raises := \<lambda>h x. False\<rparr>"

text \<open>
  What \<^verbatim>\<open>CopyN\<close> leaves behind in a source slot, and the constructor calls it
  makes for a list of elements: moves when the move constructor is
  \<^verbatim>\<open>noexcept\<close> or the type cannot be copied, copies otherwise.
\<close>

definition relocated_from :: "'a env \<Rightarrow> 'a \<Rightarrow> 'a" where
  "relocated_from T x =
     (if nothrow_move_constructible T \<or> \<not> copy_constructible T then moved_from T x else x)"

definition relocation_events :: "'a env \<Rightarrow> 'a list \<Rightarrow> 'a event list" where
  "relocation_events T xs =
     (if nothrow_move_constructible T \<or> \<not> copy_constructible T then map Move_Constructed xs
      else map Copy_Constructed xs)"

text \<open>
  An argument read against the elements \<open>ys\<close> of the vector: whether a reference
  designates an element, the value the new object is built from, and the constructor
  call that builds it.
\<close>

fun arg_ok :: "'a list \<Rightarrow> 'a arg \<Rightarrow> bool" where
  "arg_ok ys (Val x) = True"
| "arg_ok ys (Elem j) = (j < length ys)"

fun arg_value :: "'a list \<Rightarrow> 'a arg \<Rightarrow> 'a" where
  "arg_value ys (Val x) = x"
| "arg_value ys (Elem j) = ys ! j"

fun arg_event :: "'a list \<Rightarrow> 'a arg \<Rightarrow> 'a event" where
  "arg_event ys (Val x) = Constructed x"
| "arg_event ys (Elem j) = Copy_Constructed (ys ! j)"

text \<open>The capacity a full vector of size \<open>n\<close> grows to.\<close>

definition grown :: "nat \<Rightarrow> nat" where
  "grown n = (if n = 0 then 1 else n * 2)"

text \<open>
  Appending the elements of a list one after the other with \<^verbatim>\<open>PushBack\<close>,
  stopping at the first call that does not return.
\<close>

fun push_all ::
  "'a env \<Rightarrow> 'a list \<Rightarrow> 'a Vector \<Rightarrow> 'a event list \<Rightarrow>
     (error + unit) \<times> 'a Vector \<times> 'a event list" where
  "push_all T [] v h = (Inr (), v, h)"
| "push_all T (x # xs) v h =
     (case PushBack T (Val x) v h of
        (Inl e, v1, h1) \<Rightarrow> (Inl e, v1, h1)
      | (Inr u, v1, h1) \<Rightarrow> push_all T xs v1 h1)"

text \<open>
  Two element types to run the operations on: one like \<^verbatim>\<open>int\<close>, which never
  throws and whose moved-from objects keep their value, and an instrumented one whose
  copy constructor throws on the invocation that follows \<open>k\<close> successful copies and
  whose move constructor is not \<^verbatim>\<open>noexcept\<close>.
\<close>

definition plain_type :: "'a \<Rightarrow> 'a env" where
  "plain_type d =
     \<lparr>nothrow_move_constructible = True, copy_constructible = True,
      alloc_fails = \<lambda>h n. False, ctor_raises = \<lambda>h x. False,
      value_ctor_raises = \<lambda>h. False, copy_ctor_raises = \<lambda>h x. False,
      move_ctor_raises = \<lambda>h x. False, copy_assign_raises = \<lambda>h x. False,
      move_assign_raises = \<lambda>h x. False, default_value = d, moved_from = \<lambda>x. x\<rparr>"

definition is_copy :: "'a event \<Rightarrow> bool" where
  "is_copy e = (case e of Copy_Constructed x \<Rightarrow> True | _ \<Rightarrow> False)"

definition throwing_copy :: "nat \<Rightarrow> 'a \<Rightarrow> 'a env" where
  "throwing_copy k d =
     \<lparr>nothrow_move_constructible = False, copy_constructible = True,
      alloc_fails = \<lambda>h n. False, ctor_raises = \<lambda>h x. False,
      value_ctor_raises = \<lambda>h. False,
      copy_ctor_raises = \<lambda>h x. length (filter is_copy h) = k,
      move_ctor_raises = \<lambda>h x. False, copy_assign_raises = \<lambda>h x. False,
      move_assign_raises = \<lambda>h x. False, default_value = d, moved_from = \<lambda>x. x\<rparr>"

text \<open>
  What the slots hold after the shift of the in-place branch of \<^verbatim>\<open>Emplace\<close>, before
  the temporary is assigned.
\<close>

definition shifted :: "'a env \<Rightarrow> nat \<Rightarrow> 'a list \<Rightarrow> 'a list" where
  "shifted T i xs = take i xs @ moved_from T (xs ! i) # drop i xs"

text \<open>
  The elements the constructor of the new element sees: the vector as it was when the
  block is replaced or the position is the end, the shifted slots otherwise.
\<close>

definition arg_source :: "'a env \<Rightarrow> nat \<Rightarrow> 'a list \<Rightarrow> nat \<Rightarrow> 'a list" where
  "arg_source T i xs k = (if k = 0 \<or> length xs \<le> i then xs else shifted T i xs)"

section \<open>The algorithms and the operations when nothing throws\<close>

lemma calm_calmed: "calm (calmed T)"
  by (simp add: calm_def calmed_def move_ctor_throws_def)

lemma calmed_traits [simp]:
  "nothrow_move_constructible (calmed T) = nothrow_move_constructible T"
  "copy_constructible (calmed T) = copy_constructible T"
  "moved_from (calmed T) = moved_from T"
  "default_value (calmed T) = default_value T"
  by (simp_all add: calmed_def)

lemma calmed_quiet [simp]:
  "alloc_fails (calmed T) h n = False"
  "ctor_raises (calmed T) h x = False"
  "value_ctor_raises (calmed T) h = False"
  "copy_ctor_raises (calmed T) h x = False"
  "move_ctor_throws (calmed T) h x = False"
  "copy_assign_raises (calmed T) h x = False"
  "move_assign_raises (calmed T) h x = False"
  by (simp_all add: calmed_def move_ctor_throws_def)

lemma slot_get_mid [simp]: "slot_get (pre @ Some x # post) (length pre) = Some x"
  by (simp add: slot_get_def)

lemma slot_get_hd [simp]: "slot_get (Some x # post) 0 = Some x"
  by (simp add: slot_get_def)

lemma destroy_n_live:
  "destroy_n (pre @ map Some xs @ post) (length pre) (length xs) h =
     (Inr (), pre @ replicate (length xs) None @ post, h @ map Destroyed xs)"
proof (induction xs arbitrary: pre h)
  case Nil
  then show ?case by simp
next
  case (Cons x xs)
  have "destroy_n ((pre @ [None]) @ map Some xs @ post) (length (pre @ [None])) (length xs)
          (h @ [Destroyed x]) =
        (Inr (), (pre @ [None]) @ replicate (length xs) None @ post,
         (h @ [Destroyed x]) @ map Destroyed xs)"
    by (rule Cons.IH)
  then show ?case by simp
qed

lemma destroy_n_live0:
  "destroy_n (map Some xs @ post) 0 (length xs) h =
     (Inr (), replicate (length xs) None @ post, h @ map Destroyed xs)"
  using destroy_n_live [of "[]" xs post h] by simp

lemma uninitialized_copy_loop_calm:
  "calm T \<Longrightarrow> d + length xs \<le> length dst \<Longrightarrow>
   uninitialized_copy_loop T (pre @ map Some xs @ post) (length pre) (length xs) dst d h =
     (Inr (), take d dst @ map Some xs @ drop (d + length xs) dst, d + length xs,
      h @ map Copy_Constructed xs)"
proof (induction xs arbitrary: pre dst d h)
  case Nil
  then show ?case by simp
next
  case (Cons x xs)
  have nr: "\<not> copy_ctor_raises T h x" using Cons.prems(1) by (simp add: calm_def)
  have d: "d < length dst" using Cons.prems(2) by simp
  have "uninitialized_copy_loop T ((pre @ [Some x]) @ map Some xs @ post) (length (pre @ [Some x]))
          (length xs) (dst[d := Some x]) (Suc d) (h @ [Copy_Constructed x]) =
        (Inr (), take (Suc d) (dst[d := Some x]) @ map Some xs @ drop (Suc d + length xs) (dst[d := Some x]),
         Suc d + length xs, (h @ [Copy_Constructed x]) @ map Copy_Constructed xs)"
    using Cons.prems by (intro Cons.IH) simp_all
  then show ?case using nr d
    by (simp add: take_Suc_conv_app_nth)
qed

lemma uninitialized_copy_loop_transfer:
  "\<not> isl (fst (uninitialized_copy_loop T src first n dst d h)) \<Longrightarrow>
   uninitialized_copy_loop (calmed T) src first n dst d h = uninitialized_copy_loop T src first n dst d h"
proof (induction n arbitrary: first dst d h)
  case 0
  then show ?case by simp
next
  case (Suc n)
  then show ?case
    by (auto simp: calmed_def move_ctor_throws_def split: option.splits if_splits)
qed


lemma uninitialized_move_loop_calm:
  "calm T \<Longrightarrow> d + length xs \<le> length dst \<Longrightarrow>
   uninitialized_move_loop T (pre @ map Some xs @ post) (length pre) (length xs) dst d h =
     (Inr (), pre @ map (\<lambda>x. Some (moved_from T x)) xs @ post,
      take d dst @ map Some xs @ drop (d + length xs) dst, d + length xs,
      h @ map Move_Constructed xs)"
proof (induction xs arbitrary: pre dst d h)
  case Nil
  then show ?case by simp
next
  case (Cons x xs)
  have nr: "\<not> move_ctor_throws T h x" using Cons.prems(1) by (simp add: calm_def)
  have d: "d < length dst" using Cons.prems(2) by simp
  have "uninitialized_move_loop T ((pre @ [Some (moved_from T x)]) @ map Some xs @ post)
          (length (pre @ [Some (moved_from T x)]))
          (length xs) (dst[d := Some x]) (Suc d) (h @ [Move_Constructed x]) =
        (Inr (), (pre @ [Some (moved_from T x)]) @ map (\<lambda>x. Some (moved_from T x)) xs @ post,
         take (Suc d) (dst[d := Some x]) @ map Some xs @ drop (Suc d + length xs) (dst[d := Some x]),
         Suc d + length xs, (h @ [Move_Constructed x]) @ map Move_Constructed xs)"
    using Cons.prems by (intro Cons.IH) simp_all
  then show ?case using nr d
    by (simp add: take_Suc_conv_app_nth)
qed

lemma uninitialized_move_loop_transfer:
  "\<not> isl (fst (uninitialized_move_loop T src first n dst d h)) \<Longrightarrow>
   uninitialized_move_loop (calmed T) src first n dst d h = uninitialized_move_loop T src first n dst d h"
proof (induction n arbitrary: src first dst d h)
  case 0
  then show ?case by simp
next
  case (Suc n)
  then show ?case
    by (auto simp: calmed_def move_ctor_throws_def split: option.splits if_splits)
qed

lemma move_loop_calm:
  "calm T \<Longrightarrow>
   move_loop T (pre @ Some y # map Some xs @ post) (Suc (length pre)) (length xs) (length pre) h =
     (Inr (), pre @ map Some xs @ Some (if xs = [] then y else moved_from T (last xs)) # post,
      h @ map Move_Assigned xs)"
proof (induction xs arbitrary: pre y h)
  case Nil
  then show ?case by simp
next
  case (Cons x xs)
  have nr: "\<not> move_assign_raises T h x" using Cons.prems(1) by (simp add: calm_def)
  have g1: "slot_get (pre @ Some y # map Some (x # xs) @ post) (Suc (length pre)) = Some x"
    by (simp add: slot_get_def nth_append)
  have g2: "slot_get (pre @ Some y # map Some (x # xs) @ post) (length pre) = Some y"
    by simp
  have upd: "(pre @ Some y # map Some (x # xs) @ post)
               [length pre := Some x, Suc (length pre) := Some (moved_from T x)] =
             (pre @ [Some x]) @ Some (moved_from T x) # map Some xs @ post"
    by (simp add: list_update_append)
  have "move_loop T ((pre @ [Some x]) @ Some (moved_from T x) # map Some xs @ post)
          (Suc (length (pre @ [Some x]))) (length xs) (length (pre @ [Some x]))
          (h @ [Move_Assigned x]) =
        (Inr (), (pre @ [Some x]) @ map Some xs @
            Some (if xs = [] then moved_from T x else moved_from T (last xs)) # post,
         (h @ [Move_Assigned x]) @ map Move_Assigned xs)"
    using Cons.prems by (intro Cons.IH)
  then show ?case using nr g1 g2 upd
    by (simp del: list_update.simps)
qed

lemma move_loop_transfer:
  "\<not> isl (fst (move_loop T buf first n d h)) \<Longrightarrow>
   move_loop (calmed T) buf first n d h = move_loop T buf first n d h"
proof (induction n arbitrary: buf first d h)
  case 0
  then show ?case by simp
next
  case (Suc n)
  then show ?case
    by (auto simp: calmed_def move_ctor_throws_def split: option.splits if_splits)
qed

lemma move_backward_loop_calm:
  "calm T \<Longrightarrow>
   move_backward_loop T (pre @ map Some xs @ Some z # post) (length xs)
       (length pre + length xs) (Suc (length pre + length xs)) h =
     (Inr (), pre @ Some (if xs = [] then z else moved_from T (hd xs)) # map Some xs @ post,
      h @ map Move_Assigned (rev xs))"
proof (induction xs arbitrary: z post h rule: rev_induct)
  case Nil
  then show ?case by simp
next
  case (snoc x ys)
  have nr: "\<not> move_assign_raises T h x" using snoc.prems(1) by (simp add: calm_def)
  let ?buf = "pre @ map Some (ys @ [x]) @ Some z # post"
  have buf: "?buf = (pre @ map Some ys) @ Some x # Some z # post" by simp
  have g1: "slot_get ?buf (length pre + length ys) = Some x"
    unfolding buf using slot_get_mid [of "pre @ map Some ys" x "Some z # post"] by simp
  have g2: "slot_get ?buf (Suc (length pre + length ys)) = Some z"
    unfolding buf by (simp add: slot_get_def nth_append)
  have upd: "?buf[Suc (length pre + length ys) := Some x,
                  length pre + length ys := Some (moved_from T x)] =
             pre @ map Some ys @ Some (moved_from T x) # (Some x # post)"
    unfolding buf by (simp add: list_update_append)
  have "move_backward_loop T (pre @ map Some ys @ Some (moved_from T x) # (Some x # post))
          (length ys) (length pre + length ys) (Suc (length pre + length ys))
          (h @ [Move_Assigned x]) =
        (Inr (), pre @ Some (if ys = [] then moved_from T x else moved_from T (hd ys)) #
            map Some ys @ (Some x # post),
         (h @ [Move_Assigned x]) @ map Move_Assigned (rev ys))"
    using snoc.prems by (intro snoc.IH)
  then show ?case using nr g1 g2 upd
    by (simp del: list_update.simps)
qed

lemma move_backward_loop_transfer:
  "\<not> isl (fst (move_backward_loop T buf n lst d h)) \<Longrightarrow>
   move_backward_loop (calmed T) buf n lst d h = move_backward_loop T buf n lst d h"
proof (induction n arbitrary: buf lst d h)
  case 0
  then show ?case by simp
next
  case (Suc n)
  then show ?case
    by (auto simp: calmed_def move_ctor_throws_def split: option.splits if_splits)
qed


lemma uninitialized_copy_n_transfer:
  "\<not> isl (fst (uninitialized_copy_n T src first n dst d h)) \<Longrightarrow>
   uninitialized_copy_n (calmed T) src first n dst d h = uninitialized_copy_n T src first n dst d h"
  by (cases "uninitialized_copy_loop T src first n dst d h")
     (auto simp: uninitialized_copy_n_def uninitialized_copy_loop_transfer
           split: sum.splits prod.splits if_splits)

lemma uninitialized_move_n_transfer:
  "\<not> isl (fst (uninitialized_move_n T src first n dst d h)) \<Longrightarrow>
   uninitialized_move_n (calmed T) src first n dst d h = uninitialized_move_n T src first n dst d h"
  by (cases "uninitialized_move_loop T src first n dst d h")
     (auto simp: uninitialized_move_n_def uninitialized_move_loop_transfer
           split: sum.splits prod.splits if_splits)

lemma CopyN_transfer:
  "\<not> isl (fst (CopyN T src first n dst d h)) \<Longrightarrow>
   CopyN (calmed T) src first n dst d h = CopyN T src first n dst d h"
  by (cases "uninitialized_copy_n T src first n dst d h")
     (auto simp: CopyN_def uninitialized_move_n_transfer uninitialized_copy_n_transfer)

lemma RawMemory_ctor_transfer:
  "\<not> isl (RawMemory_ctor T h n) \<Longrightarrow> RawMemory_ctor (calmed T) h n = RawMemory_ctor T h n"
  by (auto simp: RawMemory_ctor_def Allocate_def calmed_def split: if_splits)

lemma construct_from_transfer:
  "\<not> isl (fst (construct_from T a own h)) \<Longrightarrow>
   construct_from (calmed T) a own h = construct_from T a own h"
  by (auto simp: construct_from_def calmed_def split: arg.splits option.splits if_splits)

lemma placement_new_transfer:
  "\<not> isl (fst (placement_new T a own buf p h)) \<Longrightarrow>
   placement_new (calmed T) a own buf p h = placement_new T a own buf p h"
  by (cases "construct_from T a own h")
     (auto simp: placement_new_def construct_from_transfer split: sum.splits if_splits)

lemma std_move_transfer:
  "\<not> isl (fst (std_move T buf first lst d h)) \<Longrightarrow>
   std_move (calmed T) buf first lst d h = std_move T buf first lst d h"
  by (auto simp: std_move_def move_loop_transfer)

lemma move_backward_transfer:
  "\<not> isl (fst (move_backward T buf first lst d h)) \<Longrightarrow>
   move_backward (calmed T) buf first lst d h = move_backward T buf first lst d h"
  by (auto simp: move_backward_def move_backward_loop_transfer)

lemmas stage_transfers =
  CopyN_transfer RawMemory_ctor_transfer construct_from_transfer placement_new_transfer
  std_move_transfer move_backward_transfer

lemma EmplaceBack_grow_transfer:
  "\<not> isl (fst (EmplaceBack_grow T a v h)) \<Longrightarrow>
   EmplaceBack_grow (calmed T) a v h = EmplaceBack_grow T a v h"
  unfolding EmplaceBack_grow_def
  by (simp add: stage_transfers split: sum.split_asm prod.split_asm split del: if_split)

lemma EmplaceBack_transfer:
  "\<not> isl (fst (EmplaceBack T a v h)) \<Longrightarrow>
   EmplaceBack (calmed T) a v h = EmplaceBack T a v h"
  unfolding EmplaceBack_def
  by (simp add: stage_transfers EmplaceBack_grow_transfer split: sum.split_asm prod.split_asm if_split_asm split del: if_split)

lemma Emplace_grow_transfer:
  "\<not> isl (fst (Emplace_grow T i a v h)) \<Longrightarrow>
   Emplace_grow (calmed T) i a v h = Emplace_grow T i a v h"
  unfolding Emplace_grow_def
  by (simp add: stage_transfers split: sum.split_asm prod.split_asm if_split_asm split del: if_split)

lemma Emplace_in_place_transfer:
  "\<not> isl (fst (Emplace_in_place T i a v h)) \<Longrightarrow>
   Emplace_in_place (calmed T) i a v h = Emplace_in_place T i a v h"
  unfolding Emplace_in_place_def
  by (simp add: stage_transfers split: sum.split_asm prod.split_asm option.split_asm if_split_asm split del: if_split)


lemma Emplace_transfer:
  "\<not> isl (fst (Emplace T i a v h)) \<Longrightarrow> Emplace (calmed T) i a v h = Emplace T i a v h"
  unfolding Emplace_def
  by (simp add: Emplace_grow_transfer Emplace_in_place_transfer
      split: sum.split_asm prod.split_asm if_split_asm split del: if_split)

lemma Erase_transfer:
  "\<not> isl (fst (Erase T i v h)) \<Longrightarrow> Erase (calmed T) i v h = Erase T i v h"
  unfolding Erase_def
  by (simp add: stage_transfers
      split: sum.split_asm prod.split_asm if_split_asm split del: if_split)

lemma Reserve_transfer:
  "\<not> isl (fst (Reserve T n v h)) \<Longrightarrow> Reserve (calmed T) n v h = Reserve T n v h"
  unfolding Reserve_def
  by (simp add: stage_transfers
      split: sum.split_asm prod.split_asm if_split_asm split del: if_split)

lemma uninitialized_copy_n_calm:
  "calm T \<Longrightarrow> d + length xs \<le> length dst \<Longrightarrow>
   uninitialized_copy_n T (pre @ map Some xs @ post) (length pre) (length xs) dst d h =
     (Inr (), take d dst @ map Some xs @ drop (d + length xs) dst, h @ map Copy_Constructed xs)"
  by (simp add: uninitialized_copy_n_def uninitialized_copy_loop_calm)

lemma uninitialized_move_n_calm:
  "calm T \<Longrightarrow> d + length xs \<le> length dst \<Longrightarrow>
   uninitialized_move_n T (pre @ map Some xs @ post) (length pre) (length xs) dst d h =
     (Inr (), pre @ map (\<lambda>x. Some (moved_from T x)) xs @ post,
      take d dst @ map Some xs @ drop (d + length xs) dst, h @ map Move_Constructed xs)"
  by (simp add: uninitialized_move_n_def uninitialized_move_loop_calm)

lemma CopyN_calm:
  "calm T \<Longrightarrow> d + length xs \<le> length dst \<Longrightarrow>
   CopyN T (pre @ map Some xs @ post) (length pre) (length xs) dst d h =
     (Inr (), pre @ map (\<lambda>x. Some (relocated_from T x)) xs @ post,
      take d dst @ map Some xs @ drop (d + length xs) dst, h @ relocation_events T xs)"
  by (simp add: CopyN_def uninitialized_copy_n_calm uninitialized_move_n_calm
      relocated_from_def relocation_events_def)

lemma construct_from_calm:
  "calm T \<Longrightarrow> arg_ok ys a \<Longrightarrow>
   construct_from T a (map Some ys @ post) h = (Inr (arg_value ys a), h @ [arg_event ys a])"
  by (cases a) (simp_all add: construct_from_def calm_def slot_get_def nth_append)

lemma replicate_update:
  "n < c \<Longrightarrow> (replicate c None)[n := y] = replicate n None @ y # replicate (c - Suc n) None"
proof -
  assume "n < c"
  then have "replicate c (None::'a option) = replicate n None @ None # replicate (c - Suc n) None"
    by (metis Suc_diff_Suc add_Suc_right le_add_diff_inverse less_imp_le_nat replicate_Suc replicate_add)
  then show ?thesis
    by (metis length_replicate list_update_length)
qed

lemma RawMemory_ctor_calm:
  "calm T \<Longrightarrow> RawMemory_ctor T h n = Inr \<lparr>m_buffer = replicate n None, m_capacity = n\<rparr>"
  by (simp add: RawMemory_ctor_def Allocate_def calm_def)

lemma Reserve_calm:
  assumes "calm T" "length xs + k < n"
  shows "Reserve T n (vector_of xs k) h =
           (Inr (), vector_of xs (n - length xs),
            h @ relocation_events T xs @ map Destroyed (map (relocated_from T) xs))"
proof -
  have cp: "CopyN T (map Some xs @ replicate k None) 0 (length xs) (replicate n None) 0 h =
        (Inr (), map (\<lambda>x. Some (relocated_from T x)) xs @ replicate k None,
         map Some xs @ replicate (n - length xs) None, h @ relocation_events T xs)"
    using CopyN_calm [of T 0 xs "replicate n None" "[]" "replicate k None" h] assms by simp
  have ds: "destroy_n (map (\<lambda>x. Some (relocated_from T x)) xs @ replicate k None) 0 (length xs)
              (h @ relocation_events T xs) =
        (Inr (), replicate (length xs) None @ replicate k None,
         (h @ relocation_events T xs) @ map Destroyed (map (relocated_from T) xs))"
    using destroy_n_live0 [of "map (relocated_from T) xs" "replicate k None" "h @ relocation_events T xs"]
    by (simp add: comp_def)
  show ?thesis
    using assms
    by (simp add: Reserve_def vector_of_def RawMemory_ctor_calm cp ds RawMemory_Swap_def)
qed

lemma list_all_live: "list_all (\<lambda>s. s \<noteq> None) ys \<Longrightarrow> map Some (map the ys) = ys"
  by (induction ys) auto

lemma list_all_free: "list_all (\<lambda>s. s = None) ys \<Longrightarrow> ys = replicate (length ys) None"
  by (induction ys) auto

lemma Vector_inv_vector_of [simp]: "Vector_inv (vector_of xs k)"
  by (simp add: Vector_inv_def vector_of_def list_all_iff)

lemma elems_vector_of [simp]: "elems (vector_of xs k) = xs"
  by (simp add: elems_def vector_of_def comp_def)

lemma Size_vector_of [simp]: "Size (vector_of xs k) = length xs" "m_size (vector_of xs k) = length xs"
  by (simp_all add: Size_def vector_of_def)

lemma Capacity_vector_of [simp]:
  "Capacity (vector_of xs k) = length xs + k" "m_capacity (m_data (vector_of xs k)) = length xs + k"
  by (simp_all add: Capacity_def vector_of_def)

lemma Vector_inv_form:
  assumes "Vector_inv v"
  shows "v = vector_of (elems v) (m_capacity (m_data v) - m_size v)"
proof -
  let ?b = "m_buffer (m_data v)"
  have len: "length ?b = m_capacity (m_data v)" and le: "m_size v \<le> length ?b"
    and live: "list_all (\<lambda>s. s \<noteq> None) (take (m_size v) ?b)"
    and free: "list_all (\<lambda>s. s = None) (drop (m_size v) ?b)"
    using assms by (simp_all add: Vector_inv_def)
  have "?b = take (m_size v) ?b @ drop (m_size v) ?b" by simp
  also have "take (m_size v) ?b = map Some (elems v)"
    using list_all_live [OF live] by (simp add: elems_def)
  also have "drop (m_size v) ?b = replicate (m_capacity (m_data v) - m_size v) None"
    using list_all_free [OF free] len by simp
  finally have b: "?b = map Some (elems v) @ replicate (m_capacity (m_data v) - m_size v) None" .
  have l: "length (elems v) = m_size v" using le by (simp add: elems_def)
  have "m_data v = \<lparr>m_buffer = map Some (elems v) @ replicate (m_capacity (m_data v) - m_size v) None,
                     m_capacity = length (elems v) + (m_capacity (m_data v) - m_size v)\<rparr>"
    using b l le len by simp
  then show ?thesis
    using l by (simp add: vector_of_def)
qed

lemma grown_gt: "n < grown n"
  by (simp add: grown_def)

lemma EmplaceBack_grow_calm:
  assumes "calm T" "arg_ok xs a"
  shows "EmplaceBack_grow T a (vector_of xs 0) h =
           (Inr (),
            \<lparr>m_data = \<lparr>m_buffer = map Some (xs @ [arg_value xs a]) @
                                    replicate (grown (length xs) - Suc (length xs)) None,
                       m_capacity = grown (length xs)\<rparr>,
             m_size = length xs\<rparr>,
            h @ [arg_event xs a] @ relocation_events T xs @
              map Destroyed (map (relocated_from T) xs))"
proof -
  let ?c = "grown (length xs)"
  let ?x = "arg_value xs a"
  let ?nb1 = "replicate (length xs) None @ Some ?x # replicate (?c - Suc (length xs)) None"
  let ?h1 = "h @ [arg_event xs a]"
  have c: "(if m_size (vector_of xs 0) = 0 then 1 else m_size (vector_of xs 0) * 2) = ?c"
    by (simp add: grown_def)
  have pn: "placement_new T a (map Some xs) (replicate ?c None) (length xs) h = (Inr (), ?nb1, ?h1)"
    using construct_from_calm [OF assms, of "[]" h] grown_gt [of "length xs"]
    by (simp add: placement_new_def replicate_update)
  have cp: "CopyN T (map Some xs) 0 (length xs) ?nb1 0 ?h1 =
        (Inr (), map (\<lambda>x. Some (relocated_from T x)) xs,
         map Some xs @ Some ?x # replicate (?c - Suc (length xs)) None,
         ?h1 @ relocation_events T xs)"
    using CopyN_calm [of T 0 xs ?nb1 "[]" "[]" ?h1] assms(1) by simp
  have ds: "destroy_n (map (\<lambda>x. Some (relocated_from T x)) xs) 0 (length xs)
              (?h1 @ relocation_events T xs) =
        (Inr (), replicate (length xs) None,
         (?h1 @ relocation_events T xs) @ map Destroyed (map (relocated_from T) xs))"
    using destroy_n_live0 [of "map (relocated_from T) xs" "[]" "?h1 @ relocation_events T xs"]
    by (simp add: comp_def)
  show ?thesis
    unfolding EmplaceBack_grow_def c
    using grown_gt [of "length xs"] pn cp ds
    by (simp add: vector_of_def RawMemory_ctor_calm [OF assms(1)]
        RawMemory_plus_def RawMemory_Swap_def)
qed

lemma EmplaceBack_calm:
  assumes "calm T" "arg_ok xs a"
  shows "EmplaceBack T a (vector_of xs k) h =
           (Inr (length xs),
            vector_of (xs @ [arg_value xs a])
              (if k = 0 then grown (length xs) - Suc (length xs) else k - 1),
            h @ [arg_event xs a] @
              (if k = 0 then relocation_events T xs @ map Destroyed (map (relocated_from T) xs)
               else []))"
proof (cases "k = 0")
  case True
  have "Suc (length xs) + (grown (length xs) - Suc (length xs)) = grown (length xs)"
    using grown_gt [of "length xs"] by simp
  then show ?thesis
    using True
    by (simp add: EmplaceBack_def EmplaceBack_grow_calm [OF assms] Vector_index_def
        RawMemory_index_def grown_gt)
       (simp add: vector_of_def)
next
  case False
  have pn: "placement_new T a (map Some xs @ replicate k None) (map Some xs @ replicate k None)
              (length xs) h =
            (Inr (), map Some xs @ Some (arg_value xs a) # replicate (k - 1) None,
             h @ [arg_event xs a])"
    using construct_from_calm [OF assms, of "replicate k None" h] False
    by (cases k) (simp_all add: placement_new_def list_update_append)
  show ?thesis
    using False pn
    by (simp add: EmplaceBack_def Capacity_def vector_of_def RawMemory_plus_def set_buffer_def
        Vector_index_def RawMemory_index_def)
qed

section \<open>What an operation that returns has done\<close>

lemma calm_plain_type [simp]: "calm (plain_type d)"
  by (simp add: calm_def plain_type_def move_ctor_throws_def)

lemma calmed_relocation [simp]:
  "relocated_from (calmed T) = relocated_from T"
  "relocation_events (calmed T) = relocation_events T"
  by (simp_all add: relocated_from_def relocation_events_def fun_eq_iff)

lemma Reserve_returns:
  assumes "Reserve T n (vector_of xs k) h = (Inr u, v', h')" "length xs + k < n"
  shows "v' = vector_of xs (n - length xs) \<and>
         h' = h @ relocation_events T xs @ map Destroyed (map (relocated_from T) xs)"
proof -
  have "\<not> isl (fst (Reserve T n (vector_of xs k) h))" using assms(1) by simp
  then have "Reserve (calmed T) n (vector_of xs k) h = Reserve T n (vector_of xs k) h"
    by (rule Reserve_transfer)
  then show ?thesis
    using Reserve_calm [OF calm_calmed assms(2), of T h] assms(1) by simp
qed

lemma EmplaceBack_returns:
  assumes "EmplaceBack T a (vector_of xs k) h = (Inr r, v', h')" "arg_ok xs a"
  shows "r = length xs \<and>
         v' = vector_of (xs @ [arg_value xs a])
                (if k = 0 then grown (length xs) - Suc (length xs) else k - 1) \<and>
         h' = h @ [arg_event xs a] @
                (if k = 0 then relocation_events T xs @ map Destroyed (map (relocated_from T) xs)
                 else [])"
proof -
  have "\<not> isl (fst (EmplaceBack T a (vector_of xs k) h))" using assms(1) by simp
  then have "EmplaceBack (calmed T) a (vector_of xs k) h = EmplaceBack T a (vector_of xs k) h"
    by (rule EmplaceBack_transfer)
  then show ?thesis
    using EmplaceBack_calm [OF calm_calmed assms(2), of T k h, unfolded calmed_relocation] assms(1)
    by simp
qed

lemma uninitialized_move_loop_error:
  "uninitialized_move_loop T src first n dst d h = (Inl e, r) \<Longrightarrow>
   e \<noteq> Bad_Alloc \<and> (nothrow_move_constructible T \<longrightarrow> e = Precondition_Violation)"
  by (induction n arbitrary: src first dst d h)
     (auto simp: move_ctor_throws_def split: option.splits if_splits)

lemma uninitialized_copy_loop_error:
  "uninitialized_copy_loop T src first n dst d h = (Inl e, r) \<Longrightarrow> e \<noteq> Bad_Alloc"
  by (induction n arbitrary: first dst d h) (auto split: option.splits if_splits)

lemma CopyN_error:
  assumes "CopyN T src first n dst d h = (Inl e, src', dst', h')" "e \<noteq> Precondition_Violation"
  shows "e = Element_Throw \<and> (copy_constructible T \<or> nothrow_move_constructible T \<longrightarrow> src' = src)"
proof (cases "nothrow_move_constructible T \<or> \<not> copy_constructible T")
  case True
  obtain r s1 d1 c1 h1 where l: "uninitialized_move_loop T src first n dst d h = (r, s1, d1, c1, h1)"
    by (metis prod_cases5)
  show ?thesis
    using assms True l uninitialized_move_loop_error [of T src first n dst d h e "(s1, d1, c1, h1)"]
    by (cases e) (auto simp: CopyN_def uninitialized_move_n_def split: sum.splits prod.splits if_splits)
next
  case False
  obtain r d1 c1 h1 where l: "uninitialized_copy_loop T src first n dst d h = (r, d1, c1, h1)"
    by (metis prod_cases4)
  show ?thesis
    using assms False l uninitialized_copy_loop_error [of T src first n dst d h e "(d1, c1, h1)"]
    by (cases e) (auto simp: CopyN_def uninitialized_copy_n_def split: sum.splits prod.splits if_splits)
qed

lemma destroy_n_error:
  "destroy_n buf first n h = (Inl e, r) \<Longrightarrow> e = Precondition_Violation"
  by (induction n arbitrary: buf first h) (auto split: option.splits)

lemma set_buffer_same [simp]: "set_buffer v (m_buffer (m_data v)) = v"
  by (simp add: set_buffer_def)

lemma set_buffer_fields [simp]:
  "m_size (set_buffer v b) = m_size v" "m_capacity (m_data (set_buffer v b)) = m_capacity (m_data v)"
  by (simp_all add: set_buffer_def)

lemma Reserve_throws:
  assumes "Reserve T n v h = (Inl e, v', h')" "e \<noteq> Precondition_Violation"
  shows "Capacity v' = Capacity v \<and> Size v' = Size v \<and>
         (copy_constructible T \<or> nothrow_move_constructible T \<longrightarrow> v' = v)"
  using assms unfolding Reserve_def
  by (auto simp: Capacity_def Size_def split: if_split_asm sum.split_asm prod.split_asm
      dest: CopyN_error destroy_n_error)

lemma grown_ge: "n \<le> grown n"
  by (simp add: grown_def)

lemma Emplace_grow_calm:
  assumes "calm T" "arg_ok xs a" "i \<le> length xs"
  shows "Emplace_grow T i a (vector_of xs 0) h =
           (Inr (),
            \<lparr>m_data = \<lparr>m_buffer = map Some (take i xs @ arg_value xs a # drop i xs) @
                                    replicate (grown (length xs) - Suc (length xs)) None,
                       m_capacity = grown (length xs)\<rparr>,
             m_size = length xs\<rparr>,
            h @ [arg_event xs a] @ relocation_events T (take i xs) @
              relocation_events T (drop i xs) @ map Destroyed (map (relocated_from T) xs))"
proof -
  let ?c = "grown (length xs)"
  let ?x = "arg_value xs a"
  let ?rest = "replicate (?c - Suc (length xs)) None"
  let ?nb1 = "replicate i None @ Some ?x # replicate (?c - Suc i) None"
  let ?h1 = "h @ [arg_event xs a]"
  let ?rf = "\<lambda>x. Some (relocated_from T x)"
  let ?h2 = "?h1 @ relocation_events T (take i xs)"
  let ?nb2 = "map Some (take i xs) @ Some ?x # replicate (?c - Suc i) None"
  let ?old2 = "map ?rf (take i xs) @ map Some (drop i xs)"
  let ?h3 = "?h2 @ relocation_events T (drop i xs)"
  have c: "(if m_size (vector_of xs 0) = 0 then 1 else m_size (vector_of xs 0) * 2) = ?c"
    by (simp add: grown_def)
  have ic: "i < ?c" using assms(3) grown_gt [of "length xs"] by simp
  have li: "length (take i xs) = i" using assms(3) by simp
  have pn: "placement_new T a (map Some xs) (replicate ?c None) i h = (Inr (), ?nb1, ?h1)"
    using construct_from_calm [OF assms(1,2), of "[]" h] ic
    by (simp add: placement_new_def replicate_update)
  have "CopyN T ([] @ map Some (take i xs) @ map Some (drop i xs)) (length ([]::'a option list))
          (length (take i xs)) ?nb1 0 ?h1 =
        (Inr (), [] @ map ?rf (take i xs) @ map Some (drop i xs),
         take 0 ?nb1 @ map Some (take i xs) @ drop (0 + length (take i xs)) ?nb1,
         ?h1 @ relocation_events T (take i xs))"
    using assms(1) ic by (intro CopyN_calm) (simp_all add: li)
  then have cp1: "CopyN T (map Some xs) 0 i ?nb1 0 ?h1 = (Inr (), ?old2, ?nb2, ?h2)"
    using assms(3) by (simp add: min_absorb2 flip: map_append)
  have mm: "map ?rf (take i xs) @ map ?rf (drop i xs) = map ?rf xs"
    by (simp flip: map_append)
  have rest: "replicate (?c - Suc i) (None::'a option) =
              replicate (length xs - i) None @ ?rest"
    using assms(3) grown_gt [of "length xs"] by (simp flip: replicate_add)
  have "CopyN T (map ?rf (take i xs) @ map Some (drop i xs) @ []) (length (map ?rf (take i xs)))
          (length (drop i xs)) ?nb2 (i + 1) ?h2 =
        (Inr (), map ?rf (take i xs) @ map ?rf (drop i xs) @ [],
         take (i + 1) ?nb2 @ map Some (drop i xs) @ drop (i + 1 + length (drop i xs)) ?nb2,
         ?h2 @ relocation_events T (drop i xs))"
    using assms(1,3) grown_gt [of "length xs"] by (intro CopyN_calm) (simp_all add: li)
  then have cp2: "CopyN T ?old2 i (length xs - i) ?nb2 (i + 1) ?h2 =
        (Inr (), map ?rf xs, map Some (take i xs @ ?x # drop i xs) @ ?rest, ?h3)"
    using assms(3) mm by (simp add: min_absorb2 rest Suc_diff_le)
  have ds: "destroy_n (map ?rf xs) 0 (length xs) ?h3 =
        (Inr (), replicate (length xs) None, ?h3 @ map Destroyed (map (relocated_from T) xs))"
    using destroy_n_live0 [of "map (relocated_from T) xs" "[]" ?h3]
    by (simp add: comp_def)
  show ?thesis
    unfolding Emplace_grow_def c
    using ic assms(3) pn cp1 cp2 ds
    by (simp add: vector_of_def RawMemory_ctor_calm [OF assms(1)]
        RawMemory_plus_def RawMemory_Swap_def)
qed


section \<open>Emplace and Erase in closed form\<close>

lemma Emplace_in_place_calm_aux:
  assumes "calm T" "0 < k"
    and w: "w = moved_from T (hd (mid @ [z]))"
    and ok: "arg_ok (pre @ w # mid @ [z]) a"
    and t: "t = arg_value (pre @ w # mid @ [z]) a"
  shows "Emplace_in_place T (length pre) a (vector_of (pre @ mid @ [z]) k) h =
           (Inr (),
            \<lparr>m_data = \<lparr>m_buffer = map Some (pre @ t # mid @ [z]) @ replicate (k - 1) None,
                       m_capacity = length (pre @ mid @ [z]) + k\<rparr>,
             m_size = length (pre @ mid @ [z])\<rparr>,
            h @ [Move_Constructed z] @ map Move_Assigned (rev mid) @
              [arg_event (pre @ w # mid @ [z]) a, Move_Assigned t, Destroyed (moved_from T t)])"
proof -
  let ?post = "replicate (k - 1) (None::'a option)"
  let ?pm = "map Some pre @ map Some mid"
  let ?n = "length pre + length mid"
  let ?buf = "?pm @ Some z # None # ?post"
  let ?buf1 = "?pm @ Some (moved_from T z) # Some z # ?post"
  let ?h1 = "h @ [Move_Constructed z]"
  let ?h2 = "?h1 @ map Move_Assigned (rev mid)"
  let ?b2 = "map Some pre @ Some w # map Some mid @ Some z # ?post"
  have k: "replicate k (None::'a option) = None # ?post"
    using assms(2) by (cases k) simp_all
  have buf: "m_buffer (m_data (vector_of (pre @ mid @ [z]) k)) = ?buf"
    by (simp add: vector_of_def k)
  have sz: "m_size (vector_of (pre @ mid @ [z]) k) = Suc ?n"
    and cap: "m_capacity (m_data (vector_of (pre @ mid @ [z]) k)) = Suc ?n + k"
    by (simp_all add: vector_of_def)
  have lpm: "length ?pm = ?n" by simp
  have g: "slot_get ?buf ?n = Some z"
    using slot_get_mid [of ?pm z "None # ?post"] by (simp only: lpm)
  have upd: "?buf[?n := Some (moved_from T z), Suc ?n := Some z] = ?buf1"
  proof -
    have "?buf[?n := Some (moved_from T z)] = ?pm @ Some (moved_from T z) # None # ?post"
      using list_update_length [of ?pm "Some z" "None # ?post" "Some (moved_from T z)"]
      by (simp only: lpm)
    moreover have "(?pm @ Some (moved_from T z) # None # ?post)[Suc ?n := Some z] = ?buf1"
      using list_update_length [of "?pm @ [Some (moved_from T z)]" None ?post "Some z"]
      by simp
    ultimately show ?thesis by simp
  qed
  have wm: "(if mid = [] then moved_from T z else moved_from T (hd mid)) = w"
    using w by (cases mid) simp_all
  have "move_backward_loop T (map Some pre @ map Some mid @ Some (moved_from T z) # (Some z # ?post))
          (length mid) (length (map Some pre) + length mid)
          (Suc (length (map Some pre) + length mid)) ?h1 =
        (Inr (), map Some pre @
            Some (if mid = [] then moved_from T z else moved_from T (hd mid)) #
            map Some mid @ (Some z # ?post),
         ?h1 @ map Move_Assigned (rev mid))"
    using assms(1) by (rule move_backward_loop_calm)
  then have mb: "move_backward T ?buf1 (length pre) ?n (Suc ?n) ?h1 = (Inr (), ?b2, ?h2)"
    by (simp add: move_backward_def wm)
  have "construct_from T a (map Some (pre @ w # mid @ [z]) @ ?post) ?h2 =
        (Inr (arg_value (pre @ w # mid @ [z]) a), ?h2 @ [arg_event (pre @ w # mid @ [z]) a])"
    using assms(1) ok by (rule construct_from_calm)
  then have cf: "construct_from T a ?b2 ?h2 = (Inr t, ?h2 @ [arg_event (pre @ w # mid @ [z]) a])"
    by (simp add: t)
  have gi: "slot_get ?b2 (length pre) = Some w"
    using slot_get_mid [of "map Some pre" w "map Some mid @ Some z # ?post"] by simp
  have ui: "?b2[length pre := Some t] = map Some (pre @ t # mid @ [z]) @ ?post"
    using list_update_length [of "map Some pre" "Some w" "map Some mid @ Some z # ?post" "Some t"]
    by simp
  have nr: "\<not> move_ctor_throws T h z"
    "\<not> move_assign_raises T (?h2 @ [arg_event (pre @ w # mid @ [z]) a]) t"
    using assms(1) by (simp_all add: calm_def)
  have step1: "slot_get ?buf (Suc ?n - 1) = Some z" using g by simp
  show ?thesis
    unfolding Emplace_in_place_def buf sz cap
    using step1 upd mb cf gi ui nr
    by (simp add: RawMemory_plus_def RawMemory_index_def set_buffer_def cap vector_of_def k)
qed

lemma Emplace_in_place_calm_mid:
  assumes "calm T" "i < length xs" "arg_ok (shifted T i xs) a" "0 < k"
  shows "Emplace_in_place T i a (vector_of xs k) h =
           (Inr (),
            \<lparr>m_data = \<lparr>m_buffer = map Some (take i xs @ arg_value (shifted T i xs) a # drop i xs) @
                                    replicate (k - 1) None,
                       m_capacity = length xs + k\<rparr>,
             m_size = length xs\<rparr>,
            h @ [Move_Constructed (last xs)] @ map Move_Assigned (rev (drop i (butlast xs))) @
              [arg_event (shifted T i xs) a, Move_Assigned (arg_value (shifted T i xs) a),
               Destroyed (moved_from T (arg_value (shifted T i xs) a))])"
proof -
  let ?mid = "drop i (butlast xs)"
  let ?pre = "take i xs"
  let ?z = "last xs"
  have ne: "xs \<noteq> []" using assms(2) by auto
  have teq: "take i (butlast xs) = ?pre" using assms(2) by (simp add: take_butlast)
  have "?pre @ ?mid = take i (butlast xs) @ ?mid" by (simp only: teq)
  then have bl: "?pre @ ?mid = butlast xs" by simp
  have xs: "?pre @ ?mid @ [?z] = xs"
    using bl ne by (simp flip: append_assoc)
  have dr: "drop i xs = ?mid @ [?z]"
  proof -
    have "drop i (butlast xs @ [?z]) = ?mid @ [?z]" using assms(2) by simp
    then show ?thesis by (simp only: append_butlast_last_id [OF ne])
  qed
  have hd: "hd (?mid @ [?z]) = xs ! i"
    using assms(2) dr by (metis hd_drop_conv_nth)
  have sh: "shifted T i xs = ?pre @ moved_from T (hd (?mid @ [?z])) # ?mid @ [?z]"
    by (simp only: shifted_def hd dr)
  have li: "length ?pre = i" using assms(2) by simp
  have "Emplace_in_place T (length ?pre) a (vector_of (?pre @ ?mid @ [?z]) k) h =
           (Inr (),
            \<lparr>m_data = \<lparr>m_buffer = map Some (?pre @ arg_value (shifted T i xs) a # ?mid @ [?z]) @
                                    replicate (k - 1) None,
                       m_capacity = length (?pre @ ?mid @ [?z]) + k\<rparr>,
             m_size = length (?pre @ ?mid @ [?z])\<rparr>,
            h @ [Move_Constructed ?z] @ map Move_Assigned (rev ?mid) @
              [arg_event (?pre @ moved_from T (hd (?mid @ [?z])) # ?mid @ [?z]) a,
               Move_Assigned (arg_value (shifted T i xs) a),
               Destroyed (moved_from T (arg_value (shifted T i xs) a))])"
    using assms(1,4) refl
  proof (rule Emplace_in_place_calm_aux)
    show "arg_ok (?pre @ moved_from T (hd (?mid @ [?z])) # ?mid @ [?z]) a"
      using assms(3) by (simp only: sh)
    show "arg_value (shifted T i xs) a =
          arg_value (?pre @ moved_from T (hd (?mid @ [?z])) # ?mid @ [?z]) a"
      by (simp only: sh)
  qed
  then show ?thesis
    using assms(2)
    by (simp only: xs li sh [symmetric] dr [symmetric])
       (simp add: shifted_def hd_drop_conv_nth)
qed

lemma Emplace_in_place_calm_end:
  assumes "calm T" "arg_ok xs a" "0 < k"
  shows "Emplace_in_place T (length xs) a (vector_of xs k) h =
           (Inr (),
            \<lparr>m_data = \<lparr>m_buffer = map Some (xs @ [arg_value xs a]) @ replicate (k - 1) None,
                       m_capacity = length xs + k\<rparr>,
             m_size = length xs\<rparr>,
            h @ [arg_event xs a])"
proof -
  have pn: "placement_new T a (map Some xs @ replicate k None) (map Some xs @ replicate k None)
              (length xs) h =
            (Inr (), map Some xs @ Some (arg_value xs a) # replicate (k - 1) None,
             h @ [arg_event xs a])"
    using construct_from_calm [OF assms(1,2), of "replicate k None" h] assms(3)
    by (cases k) (simp_all add: placement_new_def list_update_append)
  show ?thesis
    using assms(3) pn
    by (simp add: Emplace_in_place_def vector_of_def RawMemory_plus_def set_buffer_def)
qed

lemma Emplace_calm:
  assumes "calm T" "i \<le> length xs" "arg_ok (arg_source T i xs k) a"
  shows "\<exists>h'. Emplace T i a (vector_of xs k) h =
           (Inr i,
            vector_of (take i xs @ arg_value (arg_source T i xs k) a # drop i xs)
              (if k = 0 then grown (length xs) - Suc (length xs) else k - 1), h')"
proof (cases "k = 0")
  case True
  have ok: "arg_ok xs a" using assms(3) True by (simp add: arg_source_def)
  have g: "Suc (length xs) + (grown (length xs) - Suc (length xs)) = grown (length xs)"
    using grown_gt [of "length xs"] by simp
  have "fst (Emplace T i a (vector_of xs 0) h) = Inr i \<and>
        fst (snd (Emplace T i a (vector_of xs 0) h)) =
          \<lparr>m_data = \<lparr>m_buffer = map Some (take i xs @ arg_value xs a # drop i xs) @
                                    replicate (grown (length xs) - Suc (length xs)) None,
                       m_capacity = grown (length xs)\<rparr>,
             m_size = length xs + 1\<rparr>"
    using assms(2) grown_ge [of "length xs"]
    by (simp add: Emplace_def Emplace_grow_calm [OF assms(1) ok assms(2)] RawMemory_plus_def)
  then show ?thesis
    using True g assms(2)
    by (cases "Emplace T i a (vector_of xs 0) h") (simp add: arg_source_def vector_of_def)
next
  case False
  show ?thesis
  proof (cases "i < length xs")
    case True
    have ok: "arg_ok (shifted T i xs) a" using assms(3) True False by (simp add: arg_source_def)
    have "fst (Emplace T i a (vector_of xs k) h) = Inr i \<and>
        fst (snd (Emplace T i a (vector_of xs k) h)) =
          \<lparr>m_data = \<lparr>m_buffer = map Some (take i xs @ arg_value (shifted T i xs) a # drop i xs) @
                                    replicate (k - 1) None,
                       m_capacity = length xs + k\<rparr>,
             m_size = length xs + 1\<rparr>"
      using True False
      by (simp add: Emplace_def Emplace_in_place_calm_mid [OF assms(1) True ok] RawMemory_plus_def)
    then show ?thesis
      using True False
      by (cases "Emplace T i a (vector_of xs k) h") (auto simp: arg_source_def vector_of_def)
  next
    case f: False
    then have i: "i = length xs" using assms(2) by simp
    have ok: "arg_ok xs a" using assms(3) i by (simp add: arg_source_def)
    have "fst (Emplace T (length xs) a (vector_of xs k) h) = Inr (length xs) \<and>
        fst (snd (Emplace T (length xs) a (vector_of xs k) h)) =
          \<lparr>m_data = \<lparr>m_buffer = map Some (xs @ [arg_value xs a]) @ replicate (k - 1) None,
                       m_capacity = length xs + k\<rparr>,
             m_size = length xs + 1\<rparr>"
      using False
      by (simp add: Emplace_def Emplace_in_place_calm_end [OF assms(1) ok] RawMemory_plus_def)
    then show ?thesis
      using False unfolding i
      by (cases "Emplace T (length xs) a (vector_of xs k) h") (simp add: arg_source_def vector_of_def)
  qed
qed

lemma Erase_calm_aux:
  assumes "calm T"
  shows "Erase T (length pre) (vector_of (pre @ y # ys) k) h =
           (Inr (length pre), vector_of (pre @ ys) (Suc k),
            h @ map Move_Assigned ys @
              [Destroyed (if ys = [] then y else moved_from T (last ys))])"
proof -
  let ?w = "if ys = [] then y else moved_from T (last ys)"
  let ?post = "replicate k (None::'a option)"
  let ?buf = "map Some pre @ Some y # map Some ys @ ?post"
  let ?b1 = "(map Some pre @ map Some ys) @ Some ?w # ?post"
  let ?n = "length pre + length ys"
  have buf: "m_buffer (m_data (vector_of (pre @ y # ys) k)) = ?buf"
    by (simp add: vector_of_def)
  have sz: "m_size (vector_of (pre @ y # ys) k) = Suc ?n"
    and cap: "m_capacity (m_data (vector_of (pre @ y # ys) k)) = Suc ?n + k"
    by (simp_all add: vector_of_def)
  have "move_loop T (map Some pre @ Some y # map Some ys @ ?post) (Suc (length (map Some pre)))
          (length ys) (length (map Some pre)) h =
        (Inr (), map Some pre @ map Some ys @ Some ?w # ?post, h @ map Move_Assigned ys)"
    using assms by (rule move_loop_calm)
  then have mv: "std_move T ?buf (length pre + 1) (Suc ?n) (length pre) h =
        (Inr (), ?b1, h @ map Move_Assigned ys)"
    by (simp add: std_move_def)
  have "slot_get ?b1 (length (map Some pre @ map Some ys)) = Some ?w"
    by (rule slot_get_mid)
  moreover have "?b1[length (map Some pre @ map Some ys) := None] =
                 (map Some pre @ map Some ys) @ None # ?post"
    by (rule list_update_length)
  ultimately have da: "destroy_at ?b1 ?n (h @ map Move_Assigned ys) =
        (Inr (), map Some (pre @ ys) @ replicate (Suc k) None,
         (h @ map Move_Assigned ys) @ [Destroyed ?w])"
    by (simp add: destroy_at_def)
  show ?thesis
    unfolding Erase_def buf sz cap
    using mv da
    by (simp add: RawMemory_plus_def RawMemory_index_def cap set_buffer_def vector_of_def)
qed

lemma Erase_calm:
  assumes "calm T" "i < length xs"
  shows "Erase T i (vector_of xs k) h =
           (Inr i, vector_of (take i xs @ drop (Suc i) xs) (Suc k),
            h @ map Move_Assigned (drop (Suc i) xs) @
              [Destroyed (if drop (Suc i) xs = [] then xs ! i else moved_from T (last xs))])"
proof -
  have xs: "take i xs @ xs ! i # drop (Suc i) xs = xs"
    using assms(2) by (simp add: id_take_nth_drop [symmetric])
  have li: "length (take i xs) = i" using assms(2) by simp
  have la: "drop (Suc i) xs \<noteq> [] \<Longrightarrow> last (drop (Suc i) xs) = last xs"
    by simp
  have "Erase T (length (take i xs)) (vector_of (take i xs @ xs ! i # drop (Suc i) xs) k) h =
           (Inr (length (take i xs)), vector_of (take i xs @ drop (Suc i) xs) (Suc k),
            h @ map Move_Assigned (drop (Suc i) xs) @
              [Destroyed (if drop (Suc i) xs = [] then xs ! i
                          else moved_from T (last (drop (Suc i) xs)))])"
    using assms(1) by (rule Erase_calm_aux)
  then show ?thesis
    using la by (simp only: xs li) (simp split: if_splits)
qed

section \<open>Emplace, Erase and PushBack when they return\<close>

lemma calmed_shifted [simp]: "shifted (calmed T) = shifted T" "arg_source (calmed T) = arg_source T"
  by (simp_all add: shifted_def arg_source_def fun_eq_iff)

lemma arg_ok_source: "arg_ok xs a \<Longrightarrow> arg_ok (arg_source T i xs k) a"
  by (cases a) (auto simp: arg_source_def shifted_def)

lemma Emplace_returns:
  assumes "Emplace T i a (vector_of xs k) h = (Inr r, v', h')" "i \<le> length xs"
    "arg_ok (arg_source T i xs k) a"
  shows "r = i \<and>
         v' = vector_of (take i xs @ arg_value (arg_source T i xs k) a # drop i xs)
                (if k = 0 then grown (length xs) - Suc (length xs) else k - 1)"
proof -
  have "\<not> isl (fst (Emplace T i a (vector_of xs k) h))" using assms(1) by simp
  then have "Emplace (calmed T) i a (vector_of xs k) h = Emplace T i a (vector_of xs k) h"
    by (rule Emplace_transfer)
  moreover have "arg_ok (arg_source (calmed T) i xs k) a"
    using assms(3) by simp
  ultimately show ?thesis
    using Emplace_calm [OF calm_calmed assms(2), of T k a h] assms(1) by auto
qed

lemma Erase_returns:
  assumes "Erase T i (vector_of xs k) h = (Inr r, v', h')" "i < length xs"
  shows "r = i \<and> v' = vector_of (take i xs @ drop (Suc i) xs) (Suc k)"
proof -
  have "\<not> isl (fst (Erase T i (vector_of xs k) h))" using assms(1) by simp
  then have "Erase (calmed T) i (vector_of xs k) h = Erase T i (vector_of xs k) h"
    by (rule Erase_transfer)
  then have "Erase T i (vector_of xs k) h = Erase (calmed T) i (vector_of xs k) h"
    by (rule sym)
  also have "\<dots> = (Inr i, vector_of (take i xs @ drop (Suc i) xs) (Suc k),
            h @ map Move_Assigned (drop (Suc i) xs) @
              [Destroyed (if drop (Suc i) xs = [] then xs ! i
                          else moved_from (calmed T) (last xs))])"
    by (rule Erase_calm [OF calm_calmed assms(2)])
  finally show ?thesis
    using assms(1) by simp
qed

lemma Vector_default_vector_of: "Vector_default = vector_of [] 0"
  by (simp add: Vector_default_def RawMemory_default_def vector_of_def)

lemma doubling_step:
  assumes "(n = 0 \<and> k = 0) \<or> (\<exists>j. n + k = 2 ^ j \<and> n + k < 2 * n)"
  shows "\<exists>j. Suc n + (if k = 0 then grown n - Suc n else k - 1) = 2 ^ j \<and>
             Suc n + (if k = 0 then grown n - Suc n else k - 1) < 2 * Suc n"
proof (cases "k = 0")
  case True
  show ?thesis
  proof (cases "n = 0")
    case True
    then show ?thesis using \<open>k = 0\<close> by (auto simp: grown_def intro: exI [of _ 0])
  next
    case False
    then obtain j where j: "n = 2 ^ j" using assms True by auto
    have "Suc n + (grown n - Suc n) = 2 ^ Suc j"
      using False j by (simp add: grown_def)
    moreover have "Suc n + (grown n - Suc n) < 2 * Suc n"
      using False by (simp add: grown_def)
    ultimately show ?thesis using True by (auto intro: exI [of _ "Suc j"])
  qed
next
  case False
  then obtain j where j: "n + k = 2 ^ j" "n + k < 2 * n" using assms by auto
  have "Suc n + (k - 1) = n + k" using False by simp
  then show ?thesis using False j by auto
qed

lemma PushBack_returns:
  assumes "PushBack T (Val x) (vector_of ys k) h = (Inr u, v', h')"
  shows "v' = vector_of (ys @ [x]) (if k = 0 then grown (length ys) - Suc (length ys) else k - 1)"
proof -
  obtain r where "EmplaceBack T (Val x) (vector_of ys k) h = (Inr r, v', h')"
    using assms by (auto simp: PushBack_def split: prod.splits sum.splits)
  from EmplaceBack_returns [OF this] show ?thesis by simp
qed

lemma push_all_returns:
  assumes "push_all T xs (vector_of ys k) h = (Inr u, v', h')"
    "(length ys = 0 \<and> k = 0) \<or> (\<exists>j. length ys + k = 2 ^ j \<and> length ys + k < 2 * length ys)"
  shows "\<exists>k'. v' = vector_of (ys @ xs) k' \<and>
           ((length (ys @ xs) = 0 \<and> k' = 0) \<or>
            (\<exists>j. length (ys @ xs) + k' = 2 ^ j \<and> length (ys @ xs) + k' < 2 * length (ys @ xs)))"
  using assms
proof (induction xs arbitrary: ys k h)
  case Nil
  then show ?case by auto
next
  case (Cons x xs)
  let ?k1 = "if k = 0 then grown (length ys) - Suc (length ys) else k - 1"
  from Cons.prems(1) obtain u1 v1 h1 where
    p: "PushBack T (Val x) (vector_of ys k) h = (Inr u1, v1, h1)"
    and r: "push_all T xs v1 h1 = (Inr u, v', h')"
    by (auto split: prod.splits sum.splits)
  have v1: "v1 = vector_of (ys @ [x]) ?k1" using PushBack_returns [OF p] .
  have d: "\<exists>j. length (ys @ [x]) + ?k1 = 2 ^ j \<and> length (ys @ [x]) + ?k1 < 2 * length (ys @ [x])"
    using doubling_step [OF Cons.prems(2)] by simp
  have "\<exists>k'. v' = vector_of ((ys @ [x]) @ xs) k' \<and>
           ((length ((ys @ [x]) @ xs) = 0 \<and> k' = 0) \<or>
            (\<exists>j. length ((ys @ [x]) @ xs) + k' = 2 ^ j \<and>
                 length ((ys @ [x]) @ xs) + k' < 2 * length ((ys @ [x]) @ xs)))"
    using r d unfolding v1 by (intro Cons.IH) auto
  then show ?case by simp
qed

lemma push_all_calm:
  assumes "calm T"
  shows "\<exists>v' h'. push_all T xs (vector_of ys k) h = (Inr (), v', h')"
proof (induction xs arbitrary: ys k h)
  case Nil
  then show ?case by simp
next
  case (Cons x xs)
  have "arg_ok ys (Val x)" by simp
  from EmplaceBack_calm [OF assms this, of k h]
  obtain k1 h1 where "PushBack T (Val x) (vector_of ys k) h = (Inr (), vector_of (ys @ [x]) k1, h1)"
    by (simp add: PushBack_def)
  then show ?case using Cons.IH [of "ys @ [x]" k1 h1] by simp
qed

section \<open>What an operation that throws leaves behind\<close>

lemma Vector_index_error: "Vector_index v i = Inl e \<Longrightarrow> e = Precondition_Violation"
  by (auto simp: Vector_index_def RawMemory_index_def split: if_splits)

lemma RawMemory_plus_error: "RawMemory_plus m i = Inl e \<Longrightarrow> e = Precondition_Violation"
  by (auto simp: RawMemory_plus_def split: if_splits)

lemma CopyN_nothrow:
  assumes "nothrow_move_constructible T" "CopyN T src first n dst d h = (Inl e, src', dst', h')"
  shows "e = Precondition_Violation"
  using assms CopyN_error [of T src first n dst d h e src' dst' h']
    uninitialized_move_loop_error [of T src first n dst d h e]
  by (cases "uninitialized_move_loop T src first n dst d h")
     (auto simp: CopyN_def uninitialized_move_n_def split: sum.splits prod.splits if_splits)

lemma EmplaceBack_grow_throws:
  assumes "EmplaceBack_grow T a v h = (Inl e, v', h')" "e \<noteq> Precondition_Violation"
    "copy_constructible T \<or> nothrow_move_constructible T"
  shows "v' = v"
  using assms unfolding EmplaceBack_grow_def
  by (auto split: sum.split_asm prod.split_asm
      dest: CopyN_error destroy_n_error RawMemory_plus_error)

lemma EmplaceBack_throws:
  assumes "EmplaceBack T a v h = (Inl e, v', h')" "e \<noteq> Precondition_Violation"
    "copy_constructible T \<or> nothrow_move_constructible T" "m_size v = Capacity v"
  shows "v' = v"
  using assms unfolding EmplaceBack_def
  by (auto split: sum.split_asm prod.split_asm
      dest: EmplaceBack_grow_throws Vector_index_error)

lemma Emplace_grow_throws:
  assumes "Emplace_grow T i a v h = (Inl e, v', h')" "e \<noteq> Precondition_Violation"
    "copy_constructible T \<or> nothrow_move_constructible T"
  shows "v' = v"
proof (cases "nothrow_move_constructible T")
  case True
  show ?thesis
    using assms(1,2) True unfolding Emplace_grow_def
    by (auto split: sum.split_asm prod.split_asm if_split_asm
        dest: CopyN_nothrow destroy_n_error RawMemory_plus_error)
next
  case False
  then have c: "copy_constructible T" using assms(3) by simp
  show ?thesis
    using assms(1,2) False c unfolding Emplace_grow_def CopyN_def
    by (auto split: sum.split_asm prod.split_asm if_split_asm
        dest: destroy_n_error RawMemory_plus_error)
qed

lemma Emplace_throws:
  assumes "Emplace T i a v h = (Inl e, v', h')" "e \<noteq> Precondition_Violation"
    "copy_constructible T \<or> nothrow_move_constructible T" "m_size v = Capacity v"
  shows "v' = v"
  using assms unfolding Emplace_def
  by (auto split: sum.split_asm prod.split_asm
      dest: Emplace_grow_throws RawMemory_plus_error)

lemma CopyN_none [simp]: "CopyN T src first 0 dst d h = (Inr (), src, dst, h)"
  by (simp add: CopyN_def uninitialized_move_n_def uninitialized_copy_n_def)

lemma Emplace_grow_at_end:
  assumes "m_size v = m_capacity (m_data v)"
  shows "fst (Emplace_grow T (m_size v) a v h) = fst (EmplaceBack_grow T a v h) \<and>
         fst (snd (Emplace_grow T (m_size v) a v h)) = fst (snd (EmplaceBack_grow T a v h))"
  using assms unfolding Emplace_grow_def EmplaceBack_grow_def
  by (auto simp: RawMemory_plus_def split: sum.splits prod.splits)

lemma EmplaceBack_grow_fields:
  assumes "EmplaceBack_grow T a v h = (Inr u, v1, h1)"
  shows "m_size v1 = m_size v \<and> m_size v < m_capacity (m_data v1)"
  using assms unfolding EmplaceBack_grow_def
  by (auto simp: RawMemory_ctor_def RawMemory_Swap_def
      split: sum.split_asm prod.split_asm if_split_asm)

section \<open>The history of a relocation\<close>

lemma relocation_events_append:
  "relocation_events T (take i xs) @ relocation_events T (drop i xs) = relocation_events T xs"
  by (simp add: relocation_events_def flip: map_append)

lemma Emplace_grow_history:
  assumes "Emplace T i a (vector_of xs 0) h = (Inr r, v', h')" "i \<le> length xs" "arg_ok xs a"
  shows "h' = h @ [arg_event xs a] @ relocation_events T xs @
              map Destroyed (map (relocated_from T) xs)"
proof -
  obtain v1 where g: "Emplace_grow T i a (vector_of xs 0) h = (Inr (), v1, h')"
    using assms(1) by (auto simp: Emplace_def split: sum.split_asm prod.split_asm if_split_asm)
  then have "\<not> isl (fst (Emplace_grow T i a (vector_of xs 0) h))" by simp
  then have "Emplace_grow T i a (vector_of xs 0) h = Emplace_grow (calmed T) i a (vector_of xs 0) h"
    by (rule Emplace_grow_transfer [symmetric])
  also have "\<dots> = (Inr (),
            \<lparr>m_data = \<lparr>m_buffer = map Some (take i xs @ arg_value xs a # drop i xs) @
                                    replicate (grown (length xs) - Suc (length xs)) None,
                       m_capacity = grown (length xs)\<rparr>,
             m_size = length xs\<rparr>,
            h @ [arg_event xs a] @ relocation_events (calmed T) (take i xs) @
              relocation_events (calmed T) (drop i xs) @
              map Destroyed (map (relocated_from (calmed T)) xs))"
    using calm_calmed assms(3,2) by (rule Emplace_grow_calm)
  finally show ?thesis
    using g relocation_events_append [of T i xs] by simp
qed

lemma Vector_copy_ctor_calm:
  assumes "calm T"
  shows "Vector_copy_ctor T (vector_of xs k) h = (Inr (vector_of xs 0), h @ map Copy_Constructed xs)"
proof -
  have "uninitialized_copy_n T ([] @ map Some xs @ replicate k None) (length ([]::'a option list))
          (length xs) (replicate (length xs) None) 0 h =
        (Inr (), take 0 (replicate (length xs) None) @ map Some xs @
            drop (0 + length xs) (replicate (length xs) None),
         h @ map Copy_Constructed xs)"
    using assms by (intro uninitialized_copy_n_calm) simp_all
  then show ?thesis
    by (simp add: Vector_copy_ctor_def vector_of_def RawMemory_ctor_calm [OF assms])
qed

lemma Vector_copy_ctor_transfer:
  "\<not> isl (fst (Vector_copy_ctor T v h)) \<Longrightarrow>
   Vector_copy_ctor (calmed T) v h = Vector_copy_ctor T v h"
  unfolding Vector_copy_ctor_def
  by (simp add: RawMemory_ctor_transfer uninitialized_copy_n_transfer
      split: sum.split_asm prod.split_asm split del: if_split)

lemma Vector_dtor_live: "Vector_dtor (vector_of ys k) h = (Inr (), h @ map Destroyed ys)"
  using destroy_n_live0 [of ys "replicate k None" h]
  by (simp add: Vector_dtor_def vector_of_def)

lemma Swap_plain: "Swap v w = (w, v)"
  by (simp add: Swap_def RawMemory_Swap_def)

lemma copy_assign_rebuild:
  assumes "Vector_copy_assign T s this rhs h = (Inr u, s', h')" "this \<noteq> rhs"
    "s rhs = vector_of xs k" "s this = vector_of ys j" "length ys + j < length xs"
  shows "s' = s(this := vector_of xs 0) \<and>
         h' = h @ map Copy_Constructed xs @ map Destroyed ys"
proof -
  obtain c h1 where cc: "Vector_copy_ctor T (vector_of xs k) h = (Inr c, h1)"
    using assms
    by (auto simp: Vector_copy_assign_def split: sum.split_asm prod.split_asm)
  then have "\<not> isl (fst (Vector_copy_ctor T (vector_of xs k) h))" by simp
  then have "Vector_copy_ctor T (vector_of xs k) h = Vector_copy_ctor (calmed T) (vector_of xs k) h"
    by (rule Vector_copy_ctor_transfer [symmetric])
  also have "\<dots> = (Inr (vector_of xs 0), h @ map Copy_Constructed xs)"
    using calm_calmed by (rule Vector_copy_ctor_calm)
  finally have c: "Vector_copy_ctor T (vector_of xs k) h =
                   (Inr (vector_of xs 0), h @ map Copy_Constructed xs)" .
  show ?thesis
    using assms c
    by (simp add: Vector_copy_assign_def Swap_plain Vector_dtor_live)
qed

section \<open>The position an insertion returns\<close>

lemma Insert_returns_position:
  assumes "Vector_inv v" "i \<le> Size v" "Insert T i (Val x) v h = (Inr p, v', h')"
  shows "p = i \<and> elems v' = take i (elems v) @ x # drop i (elems v) \<and> elems v' ! p = x"
proof -
  obtain xs k where v: "v = vector_of xs k"
    using Vector_inv_form [OF assms(1)] by blast
  have i: "i \<le> length xs" using assms(2) by (simp add: v)
  have "Emplace T i (Val x) (vector_of xs k) h = (Inr p, v', h')"
    using assms(3) by (simp add: Insert_def v)
  from Emplace_returns [OF this i] show ?thesis
    using i by (auto simp: v nth_append)
qed

section \<open>Runs on concrete vectors\<close>

text \<open>
  The scenario of the specification on a vector of numbers: three appends from the
  empty vector, an insertion at index 1 and the removal of the inserted element.
\<close>

lemma run_push_1:
  "push_all (plain_type 0) [1::nat] Vector_default [] = (Inr (), vector_of [1] 0, [Constructed 1])"
  by code_simp

lemma run_push_2:
  "push_all (plain_type 0) [1::nat, 2] Vector_default [] =
     (Inr (), vector_of [1, 2] 0,
      [Constructed 1, Constructed 2, Move_Constructed 1, Destroyed 1])"
  by code_simp

lemma run_push_3:
  "push_all (plain_type 0) [1::nat, 2, 3] Vector_default [] =
     (Inr (), vector_of [1, 2, 3] 1,
      [Constructed 1, Constructed 2, Move_Constructed 1, Destroyed 1,
       Constructed 3, Move_Constructed 1, Move_Constructed 2, Destroyed 1, Destroyed 2])"
  by code_simp

lemma run_emplace_back:
  "EmplaceBack (plain_type 0) (Val 3) (vector_of [1::nat, 2] 0) [] =
     (Inr 2, vector_of [1, 2, 3] 1,
      [Constructed 3, Move_Constructed 1, Move_Constructed 2, Destroyed 1, Destroyed 2])"
  by code_simp

lemma run_emplace:
  "Emplace (plain_type 0) 1 (Val 3) (vector_of [1::nat, 2] 0) [] =
     (Inr 1, vector_of [1, 3, 2] 1,
      [Constructed 3, Move_Constructed 1, Move_Constructed 2, Destroyed 1, Destroyed 2])"
  by code_simp

lemma run_insert:
  "Insert (plain_type 0) 1 (Val 99) (vector_of [1::nat, 2, 3] 1) [] =
     (Inr 1, vector_of [1, 99, 2, 3] 0,
      [Move_Constructed 3, Move_Assigned 2, Constructed 99, Move_Assigned 99, Destroyed 99])"
  by code_simp

lemma run_erase:
  "Erase (plain_type 0) 1 (vector_of [1::nat, 99, 2, 3] 0)
     [Move_Constructed 3, Move_Assigned 2, Constructed 99, Move_Assigned 99, Destroyed 99] =
     (Inr 1, vector_of [1, 2, 3] 1,
      [Move_Constructed 3, Move_Assigned 2, Constructed 99, Move_Assigned 99, Destroyed 99,
       Move_Assigned 2, Move_Assigned 3, Destroyed 3])"
  by code_simp

text \<open>
  The instrumented element type: the copy constructor throws on its second invocation
  (first three lemmas) or on its first (the fourth).
\<close>

lemma run_reserve_throw:
  "Reserve (throwing_copy 1 0) 5 (vector_of [1::nat, 2] 0) [] =
     (Inl Element_Throw, vector_of [1, 2] 0, [Copy_Constructed 1, Raised, Destroyed 1])"
  by code_simp

lemma run_emplace_back_throw:
  "EmplaceBack (throwing_copy 1 0) (Val 3) (vector_of [1::nat, 2] 0) [] =
     (Inl Element_Throw, vector_of [1, 2] 0,
      [Constructed 3, Copy_Constructed 1, Raised, Destroyed 1])"
  by code_simp

lemma run_insert_throw_after:
  "Insert (throwing_copy 1 0) 1 (Val 9) (vector_of [1::nat, 2] 0) [] =
     (Inl Element_Throw, vector_of [1, 2] 0,
      [Constructed 9, Copy_Constructed 1, Raised, Destroyed 1, Destroyed 9])"
  by code_simp

lemma run_insert_throw_before:
  "Insert (throwing_copy 0 0) 1 (Val 9) (vector_of [1::nat, 2] 0) [] =
     (Inl Element_Throw, vector_of [1, 2] 0, [Constructed 9, Raised, Destroyed 9])"
  by code_simp

text \<open>Inserting at the end and appending, with and without a free slot.\<close>

lemma run_emplace_end_full:
  "Emplace (plain_type 0) 2 (Val 3) (vector_of [1::nat, 2] 0) [] =
     (Inr 2, vector_of [1, 2, 3] 1,
      [Constructed 3, Move_Constructed 1, Move_Constructed 2, Destroyed 1, Destroyed 2])"
  by code_simp

lemma run_emplace_end_free:
  "Emplace (plain_type 0) 2 (Val 3) (vector_of [1::nat, 2] 1) [] =
     (Inr 2, vector_of [1, 2, 3] 0, [Constructed 3])"
  by code_simp

lemma run_emplace_back_free:
  "EmplaceBack (plain_type 0) (Val 3) (vector_of [1::nat, 2] 1) [] =
     (Inr 2, vector_of [1, 2, 3] 0, [Constructed 3])"
  by code_simp

text \<open>
  Relocation by copying and by moving, and a copy assignment from a longer vector than
  the capacity holds.
\<close>

lemma run_reserve_copy:
  "Reserve (throwing_copy 5 0) 5 (vector_of [1::nat, 2] 0) [] =
     (Inr (), vector_of [1, 2] 3,
      [Copy_Constructed 1, Copy_Constructed 2, Destroyed 1, Destroyed 2])"
  by code_simp

lemma run_reserve_move:
  "Reserve (plain_type 0) 5 (vector_of [1::nat, 2] 0) [] =
     (Inr (), vector_of [1, 2] 3,
      [Move_Constructed 1, Move_Constructed 2, Destroyed 1, Destroyed 2])"
  by code_simp

lemma run_copy_assign_rebuild:
  "fst (Vector_copy_assign (plain_type 0)
          (empty_store(0 := vector_of [1::nat] 0, 1 := vector_of [7, 8] 0)) 0 1 []) = Inr () \<and>
   fst (snd (Vector_copy_assign (plain_type 0)
          (empty_store(0 := vector_of [1::nat] 0, 1 := vector_of [7, 8] 0)) 0 1 [])) 0 =
     vector_of [7, 8] 0 \<and>
   snd (snd (Vector_copy_assign (plain_type 0)
          (empty_store(0 := vector_of [1::nat] 0, 1 := vector_of [7, 8] 0)) 0 1 [])) =
     [Copy_Constructed 7, Copy_Constructed 8, Destroyed 1]"
  by code_simp

text \<open>
  Vectors with a free slot, as the public operations build them: \<^verbatim>\<open>Reserve(4)\<close> on the
  empty vector followed by appends, and three appends to the empty vector.
\<close>

lemma run_reach_reserved:
  "Reserve (plain_type 0) 4 Vector_default [] = (Inr (), vector_of ([]::nat list) 4, []) \<and>
   PushBack (plain_type 0) (Val 1) (vector_of ([]::nat list) 4) [] =
     (Inr (), vector_of [1::nat] 3, [Constructed 1])"
  by code_simp

lemma run_reach_pushed:
  "fst (snd (push_all (plain_type 0) [7::nat, 8, 9] Vector_default [])) = vector_of [7, 8, 9] 1"
  by code_simp

lemma run_reach_three:
  "push_all (plain_type 0) [1::nat, 2, 3] (vector_of [] 4) [] =
     (Inr (), vector_of [1, 2, 3] 1, [Constructed 1, Constructed 2, Constructed 3])"
  by code_simp

section \<open>Moving a vector\<close>

text \<open>
  C1, as stated: after move construction or move assignment the source has size 0 and
  capacity 0.  Move assignment is a swap, so the source ends with what the destination
  held: moving \<open>[2, 3]\<close> into a vector that holds \<open>[1]\<close> leaves the source with size 1
  and capacity 1.
\<close>

theorem move_assign_source_not_emptied:
  "Size (Vector_move_assign
           (empty_store(0 := vector_of [1::nat] 0, 1 := vector_of [2, 3] 0)) 0 1 1) = 1 \<and>
   Capacity (Vector_move_assign
           (empty_store(0 := vector_of [1::nat] 0, 1 := vector_of [2, 3] 0)) 0 1 1) = 1"
  by (simp add: Vector_move_assign_def Vector_Swap_def Swap_def RawMemory_Swap_def
      vector_of_def Size_def Capacity_def)

text \<open>
  C1, amended: after move construction the source has size 0 and capacity 0 and the
  destination holds exactly the prior state of the source.  After move assignment
  between two distinct vectors the destination holds exactly the prior state of the
  source and the source holds the prior state of the destination, so the source is
  empty exactly when the destination was.  No other vector changes.  Neither operation
  has a failing outcome: both are \<^verbatim>\<open>noexcept\<close> and call no operation of the element
  type, so the model gives them no error result and no history.
\<close>

theorem move_transfers_state:
  assumes "this \<noteq> other"
  shows "Vector_move_ctor s this other this = s other \<and>
         Size (Vector_move_ctor s this other other) = 0 \<and>
         Capacity (Vector_move_ctor s this other other) = 0 \<and>
         Vector_move_assign s this other this = s other \<and>
         Vector_move_assign s this other other = s this \<and>
         (\<forall>a. a \<noteq> this \<and> a \<noteq> other \<longrightarrow>
            Vector_move_ctor s this other a = s a \<and> Vector_move_assign s this other a = s a)"
  using assms
  by (simp add: Vector_move_ctor_def RawMemory_move_ctor_def Vector_move_assign_def
      Vector_Swap_def Swap_def RawMemory_Swap_def Size_def Capacity_def)

theorem move_transfers_state_witness:
  "Vector_move_ctor (empty_store(1 := vector_of [2::nat, 3] 1)) 0 1 0 = vector_of [2, 3] 1 \<and>
   Size (Vector_move_ctor (empty_store(1 := vector_of [2::nat, 3] 1)) 0 1 1) = 0 \<and>
   Vector_move_assign (empty_store(0 := vector_of [1::nat] 0, 1 := vector_of [2, 3] 1)) 0 1 0
     = vector_of [2, 3] 1 \<and>
   Vector_move_assign (empty_store(0 := vector_of [1::nat] 0, 1 := vector_of [2, 3] 1)) 0 1 1
     = vector_of [1] 0"
  using move_transfers_state [of 0 1 "empty_store(1 := vector_of [2::nat, 3] 1)"]
    move_transfers_state [of 0 1 "empty_store(0 := vector_of [1::nat] 0, 1 := vector_of [2, 3] 1)"]
  by simp

section \<open>Self-assignment\<close>

text \<open>
  C10: assigning a vector to itself, by copy or by move, changes nothing: the store is
  the same afterwards (so size, capacity and elements are), no operation of the element
  type is called and the copy assignment returns normally.
\<close>

theorem self_assignment_no_op:
  "Vector_copy_assign T s a a h = (Inr (), s, h) \<and> Vector_move_assign s a a = s"
  by (simp add: Vector_copy_assign_def Vector_move_assign_def)

section \<open>Reserve\<close>



section \<open>Growth\<close>

text \<open>
  C3: when the vector is full (\<^verbatim>\<open>size_ == Capacity()\<close>), a call of \<^verbatim>\<open>EmplaceBack\<close>
  (which \<^verbatim>\<open>PushBack\<close> forwards to) or of \<^verbatim>\<open>Emplace\<close> (which \<^verbatim>\<open>Insert\<close> forwards to)
  that returns leaves the capacity at \<open>max 1 (2 * old capacity)\<close>.  Appending the
  elements of \<open>xs\<close> one by one to the empty vector, when every call returns, gives a
  vector of size \<open>length xs\<close> that holds \<open>xs\<close>, whose capacity is at least its size and,
  once an element was appended, is the power of two \<open>2 ^ j\<close> with
  \<open>length xs \<le> 2 ^ j < 2 * length xs\<close>; as this holds after every append the
  capacities visited are 1, 2, 4, 8, ...  With an element type and an allocator that do
  not throw all these calls return.
\<close>

theorem growth_doubles_capacity:
  assumes "Vector_inv v" "Size v = Capacity v" "i \<le> Size v" "arg_ok (elems v) a"
  shows "(\<forall>r v' h'. EmplaceBack T a v h = (Inr r, v', h') \<longrightarrow>
            Capacity v' = max 1 (2 * Capacity v)) \<and>
         (\<forall>r v' h'. Emplace T i a v h = (Inr r, v', h') \<longrightarrow>
            Capacity v' = max 1 (2 * Capacity v)) \<and>
         (\<forall>u v' h'. push_all T xs Vector_default h = (Inr u, v', h') \<longrightarrow>
            Size v' = length xs \<and> elems v' = xs \<and> Size v' \<le> Capacity v' \<and>
            (xs \<noteq> [] \<longrightarrow> (\<exists>j. Capacity v' = 2 ^ j \<and> 2 ^ j < 2 * length xs))) \<and>
         (calm T \<longrightarrow>
            (\<exists>r v' h'. EmplaceBack T a v h = (Inr r, v', h')) \<and>
            (\<exists>r v' h'. Emplace T i a v h = (Inr r, v', h')) \<and>
            (\<exists>v' h'. push_all T xs Vector_default h = (Inr (), v', h')))"
proof -
  obtain ys k where v: "v = vector_of ys k"
    using Vector_inv_form [OF assms(1)] by blast
  have k: "k = 0" using assms(2) by (simp add: v)
  have i: "i \<le> length ys" using assms(3) by (simp add: v)
  have ok: "arg_ok ys a" using assms(4) by (simp add: v)
  have ok': "arg_ok (arg_source T i ys k) a" using ok by (rule arg_ok_source)
  have g: "Suc (length ys) + (grown (length ys) - Suc (length ys)) = max 1 (2 * length ys)"
    by (cases ys) (simp_all add: grown_def)
  have eb: "Capacity v' = max 1 (2 * Capacity v)"
    if "EmplaceBack T a v h = (Inr r, v', h')" for r v' h'
    using EmplaceBack_returns [OF that [unfolded v] ok] g by (simp add: v k)
  have em: "Capacity v' = max 1 (2 * Capacity v)"
    if "Emplace T i a v h = (Inr r, v', h')" for r v' h'
    using Emplace_returns [OF that [unfolded v] i ok'] g i by (simp add: v k)
  have pa: "Size v' = length xs \<and> elems v' = xs \<and> Size v' \<le> Capacity v' \<and>
            (xs \<noteq> [] \<longrightarrow> (\<exists>j. Capacity v' = 2 ^ j \<and> 2 ^ j < 2 * length xs))"
    if "push_all T xs Vector_default h = (Inr u, v', h')" for u v' h'
  proof -
    have "push_all T xs (vector_of [] 0) h = (Inr u, v', h')"
      using that by (simp add: Vector_default_vector_of)
    from push_all_returns [OF this] show ?thesis by auto
  qed
  have tot: "(\<exists>r v' h'. EmplaceBack T a v h = (Inr r, v', h')) \<and>
            (\<exists>r v' h'. Emplace T i a v h = (Inr r, v', h')) \<and>
            (\<exists>v' h'. push_all T xs Vector_default h = (Inr (), v', h'))" if c: "calm T"
    using EmplaceBack_calm [OF c ok, of k h] Emplace_calm [OF c i ok', of h]
      push_all_calm [OF c, of xs "[]" 0 h]
    unfolding v Vector_default_vector_of by blast
  show ?thesis
    using eb em pa tot by blast
qed

theorem growth_doubles_capacity_witness:
  "Vector_inv (vector_of [1::nat, 2] 0) \<and>
   Size (vector_of [1::nat, 2] 0) = Capacity (vector_of [1::nat, 2] 0) \<and>
   (1::nat) \<le> Size (vector_of [1::nat, 2] 0) \<and>
   arg_ok (elems (vector_of [1::nat, 2] 0)) (Val 3) \<and>
   EmplaceBack (plain_type 0) (Val 3) (vector_of [1::nat, 2] 0) [] =
     (Inr 2, vector_of [1, 2, 3] 1,
      [Constructed 3, Move_Constructed 1, Move_Constructed 2, Destroyed 1, Destroyed 2]) \<and>
   Emplace (plain_type 0) 1 (Val 3) (vector_of [1::nat, 2] 0) [] =
     (Inr 1, vector_of [1, 3, 2] 1,
      [Constructed 3, Move_Constructed 1, Move_Constructed 2, Destroyed 1, Destroyed 2]) \<and>
   Capacity (vector_of [1::nat, 2, 3] 1) = max 1 (2 * Capacity (vector_of [1::nat, 2] 0)) \<and>
   Capacity (vector_of [1::nat, 3, 2] 1) = max 1 (2 * Capacity (vector_of [1::nat, 2] 0)) \<and>
   fst (snd (push_all (plain_type 0) [1::nat, 2, 3] Vector_default [])) = vector_of [1, 2, 3] 1 \<and>
   Size (vector_of [1::nat, 2, 3] 1) = 3 \<and> Capacity (vector_of [1::nat, 2, 3] 1) = 2 ^ 2 \<and>
   Capacity (fst (snd (push_all (plain_type 0) [1::nat] Vector_default []))) = 1 \<and>
   Capacity (fst (snd (push_all (plain_type 0) [1::nat, 2] Vector_default []))) = 2 \<and>
   Capacity (fst (snd (push_all (plain_type 0) [1::nat, 2, 3] Vector_default []))) = 4"
  using growth_doubles_capacity [of "vector_of [1::nat, 2] 0" 1 "Val 3" "plain_type 0" "[]"
      "[1, 2, 3]"]
    run_push_1 run_push_2 run_push_3 run_emplace_back run_emplace
  by simp

section \<open>Inserting and erasing\<close>

text \<open>
  C4: for a vector that satisfies the invariant and an index \<open>i\<close> with
  \<open>0 \<le> i \<le> size\<close>, \<^verbatim>\<open>Insert\<close> at \<open>i\<close> followed by \<^verbatim>\<open>Erase\<close> at the iterator it
  returned, when both calls return, leaves the original sequence of elements and the
  original size.  The value may also be a reference to an element of the vector.  With
  an element type and an allocator that do not throw both calls return.
\<close>

theorem Insert_then_Erase_restores:
  assumes "Vector_inv v" "i \<le> Size v" "arg_ok (elems v) a"
  shows "(\<forall>p v1 h1 q v2 h2.
            Insert T i a v h = (Inr p, v1, h1) \<and> Erase T p v1 h1 = (Inr q, v2, h2) \<longrightarrow>
            elems v2 = elems v \<and> Size v2 = Size v) \<and>
         (calm T \<longrightarrow>
            (\<exists>p v1 h1 q v2 h2.
               Insert T i a v h = (Inr p, v1, h1) \<and> Erase T p v1 h1 = (Inr q, v2, h2)))"
proof -
  obtain xs k where v: "v = vector_of xs k"
    using Vector_inv_form [OF assms(1)] by blast
  have i: "i \<le> length xs" using assms(2) by (simp add: v)
  have ok: "arg_ok (arg_source T i xs k) a"
    using assms(3) by (simp add: v arg_ok_source)
  let ?x = "arg_value (arg_source T i xs k) a"
  let ?ys = "take i xs @ ?x # drop i xs"
  have il: "i < length ?ys" using i by simp
  have restore: "take i ?ys @ drop (Suc i) ?ys = xs" using i by simp
  have ret: "elems v2 = elems v \<and> Size v2 = Size v"
    if "Insert T i a v h = (Inr p, v1, h1)" "Erase T p v1 h1 = (Inr q, v2, h2)"
    for p v1 h1 q v2 h2
  proof -
    from that(1) have "Emplace T i a (vector_of xs k) h = (Inr p, v1, h1)"
      by (simp add: Insert_def v)
    from Emplace_returns [OF this i ok]
    obtain k1 where p: "p = i" and v1: "v1 = vector_of ?ys k1" by blast
    from that(2) have "Erase T i (vector_of ?ys k1) h1 = (Inr q, v2, h2)"
      by (simp only: p v1)
    from Erase_returns [OF this il] have "v2 = vector_of xs (Suc k1)"
      by (simp only: restore)
    then show ?thesis by (simp add: v)
  qed
  have tot: "\<exists>p v1 h1 q v2 h2.
               Insert T i a v h = (Inr p, v1, h1) \<and> Erase T p v1 h1 = (Inr q, v2, h2)"
    if c: "calm T"
  proof -
    obtain k1 h1 where e: "Emplace T i a (vector_of xs k) h = (Inr i, vector_of ?ys k1, h1)"
      using Emplace_calm [OF c i ok, of h] by blast
    show ?thesis
      using e Erase_calm [OF c il, of k1 h1] by (simp add: Insert_def v)
  qed
  show ?thesis
    using ret tot by blast
qed

theorem Insert_then_Erase_restores_witness:
  "Vector_inv (vector_of [1::nat, 2, 3] 1) \<and> (1::nat) \<le> Size (vector_of [1::nat, 2, 3] 1) \<and>
   arg_ok (elems (vector_of [1::nat, 2, 3] 1)) (Val 99) \<and>
   Insert (plain_type 0) 1 (Val 99) (vector_of [1::nat, 2, 3] 1) [] =
     (Inr 1, vector_of [1, 99, 2, 3] 0,
      [Move_Constructed 3, Move_Assigned 2, Constructed 99, Move_Assigned 99, Destroyed 99]) \<and>
   fst (snd (Erase (plain_type 0) 1 (vector_of [1::nat, 99, 2, 3] 0)
     [Move_Constructed 3, Move_Assigned 2, Constructed 99, Move_Assigned 99, Destroyed 99])) =
     vector_of [1, 2, 3] 1 \<and>
   elems (vector_of [1::nat, 2, 3] 1) = [1, 2, 3] \<and> Size (vector_of [1::nat, 2, 3] 1) = 3"
  using Insert_then_Erase_restores [of "vector_of [1::nat, 2, 3] 1" 1 "Val 99" "plain_type 0" "[]"]
    run_insert run_erase
  by simp

section \<open>A copy that throws while the vector grows\<close>

text \<open>
  C2: for an element type whose move constructor is not \<^verbatim>\<open>noexcept\<close> and that can be
  copied, if a call of \<^verbatim>\<open>EmplaceBack\<close>, \<^verbatim>\<open>PushBack\<close>, \<^verbatim>\<open>Emplace\<close> or \<^verbatim>\<open>Insert\<close> on
  a full vector ends with an exception (the copy of an element during the relocation
  is one way; a failed allocation or a throwing constructor of the new element are the
  others), the vector is exactly what it was before the call: the same block, hence the
  same size, capacity and elements.
\<close>

theorem growth_failure_leaves_vector:
  assumes "\<not> nothrow_move_constructible T" "copy_constructible T" "Size v = Capacity v"
    "e \<noteq> Precondition_Violation"
  shows "(EmplaceBack T a v h = (Inl e, v', h') \<longrightarrow> v' = v) \<and>
         (PushBack T a v h = (Inl e, v', h') \<longrightarrow> v' = v) \<and>
         (Emplace T i a v h = (Inl e, v', h') \<longrightarrow> v' = v) \<and>
         (Insert T i a v h = (Inl e, v', h') \<longrightarrow> v' = v)"
proof -
  have s: "m_size v = Capacity v" using assms(3) by (simp add: Size_def)
  have c: "copy_constructible T \<or> nothrow_move_constructible T" using assms(2) by simp
  have "EmplaceBack T a v h = (Inl e, v', h')" if "PushBack T a v h = (Inl e, v', h')"
    using that by (auto simp: PushBack_def split: prod.splits sum.splits)
  then show ?thesis
    using EmplaceBack_throws [OF _ assms(4) c s] Emplace_throws [OF _ assms(4) c s]
    by (auto simp: Insert_def)
qed

theorem growth_failure_leaves_vector_witness:
  "\<not> nothrow_move_constructible (throwing_copy 1 (0::nat)) \<and>
   copy_constructible (throwing_copy 1 (0::nat)) \<and>
   Size (vector_of [1::nat, 2] 0) = Capacity (vector_of [1::nat, 2] 0) \<and>
   Element_Throw \<noteq> Precondition_Violation \<and>
   EmplaceBack (throwing_copy 1 0) (Val 3) (vector_of [1::nat, 2] 0) [] =
     (Inl Element_Throw, vector_of [1, 2] 0,
      [Constructed 3, Copy_Constructed 1, Raised, Destroyed 1]) \<and>
   Insert (throwing_copy 1 0) 1 (Val 9) (vector_of [1::nat, 2] 0) [] =
     (Inl Element_Throw, vector_of [1, 2] 0,
      [Constructed 9, Copy_Constructed 1, Raised, Destroyed 1, Destroyed 9])"
  using growth_failure_leaves_vector [of "throwing_copy 1 (0::nat)" "vector_of [1, 2] 0"
      Element_Throw "Val 3" "[]" "vector_of [1, 2] 0"
      "[Constructed 3, Copy_Constructed 1, Raised, Destroyed 1]" 1]
    run_emplace_back_throw run_insert_throw_after
  by (simp add: throwing_copy_def)

section \<open>Inserting at the end\<close>

text \<open>
  C8: for every vector and every argument, \<^verbatim>\<open>Emplace\<close> at \<^verbatim>\<open>end()\<close> has the same
  outcome as \<^verbatim>\<open>EmplaceBack\<close> (the iterator returned is the offset of the element the
  reference designates, or both end with the same error) and leaves the same vector:
  the same block, size and capacity.  \<^verbatim>\<open>Insert\<close> at \<^verbatim>\<open>end()\<close> and \<^verbatim>\<open>PushBack\<close> leave
  the same vector too.
\<close>

theorem Emplace_at_end_is_EmplaceBack:
  "fst (Emplace T (Size v) a v h) = fst (EmplaceBack T a v h) \<and>
   fst (snd (Emplace T (Size v) a v h)) = fst (snd (EmplaceBack T a v h)) \<and>
   fst (snd (Insert T (Size v) a v h)) = fst (snd (PushBack T a v h))"
proof -
  have e: "fst (Emplace T (m_size v) a v h) = fst (EmplaceBack T a v h) \<and>
           fst (snd (Emplace T (m_size v) a v h)) = fst (snd (EmplaceBack T a v h))"
  proof (cases "m_size v = Capacity v")
    case True
    then have c: "m_size v = m_capacity (m_data v)" by (simp add: Capacity_def)
    obtain r1 v1 h1 where g1: "Emplace_grow T (m_size v) a v h = (r1, v1, h1)"
      by (cases "Emplace_grow T (m_size v) a v h") auto
    obtain r2 v2 h2 where g2: "EmplaceBack_grow T a v h = (r2, v2, h2)"
      by (cases "EmplaceBack_grow T a v h") auto
    have eq: "r1 = r2" "v1 = v2"
      using Emplace_grow_at_end [OF c, of T a h] g1 g2 by simp_all
    show ?thesis
    proof (cases r2)
      case (Inl err)
      then show ?thesis using True g1 g2 eq by (simp add: Emplace_def EmplaceBack_def)
    next
      case (Inr u)
      from EmplaceBack_grow_fields [OF g2 [unfolded Inr]]
      have "m_size v2 = m_size v" "m_size v < m_capacity (m_data v2)" by simp_all
      then show ?thesis
        using True g1 g2 eq Inr
        by (simp add: Emplace_def EmplaceBack_def RawMemory_plus_def Vector_index_def
            RawMemory_index_def)
    qed
  next
    case False
    show ?thesis
      using False
      by (auto simp: Emplace_def EmplaceBack_def Emplace_in_place_def RawMemory_plus_def
          Vector_index_def RawMemory_index_def Capacity_def
          split: sum.splits prod.splits)
  qed
  have "fst (snd (PushBack T a v h)) = fst (snd (EmplaceBack T a v h))"
    by (auto simp: PushBack_def split: prod.splits sum.splits)
  then show ?thesis
    using e by (simp add: Size_def Insert_def)
qed

theorem Emplace_at_end_is_EmplaceBack_witness:
  "fst (Emplace (plain_type 0) (Size (vector_of [1::nat, 2] 0)) (Val 3)
          (vector_of [1::nat, 2] 0) []) = Inr 2 \<and>
   fst (snd (Emplace (plain_type 0) (Size (vector_of [1::nat, 2] 0)) (Val 3)
          (vector_of [1::nat, 2] 0) [])) = vector_of [1, 2, 3] 1 \<and>
   fst (EmplaceBack (plain_type 0) (Val 3) (vector_of [1::nat, 2] 0) []) = Inr 2 \<and>
   fst (snd (EmplaceBack (plain_type 0) (Val 3) (vector_of [1::nat, 2] 0) [])) =
     vector_of [1, 2, 3] 1 \<and>
   fst (Emplace (plain_type 0) (Size (vector_of [1::nat, 2] 1)) (Val 3)
          (vector_of [1::nat, 2] 1) []) = Inr 2 \<and>
   fst (snd (Emplace (plain_type 0) (Size (vector_of [1::nat, 2] 1)) (Val 3)
          (vector_of [1::nat, 2] 1) [])) = vector_of [1, 2, 3] 0 \<and>
   fst (EmplaceBack (plain_type 0) (Val 3) (vector_of [1::nat, 2] 1) []) = Inr 2 \<and>
   fst (snd (EmplaceBack (plain_type 0) (Val 3) (vector_of [1::nat, 2] 1) [])) =
     vector_of [1, 2, 3] 0"
  using Emplace_at_end_is_EmplaceBack [of "plain_type 0" "vector_of [1::nat, 2] 0" "Val 3" "[]"]
    Emplace_at_end_is_EmplaceBack [of "plain_type 0" "vector_of [1::nat, 2] 1" "Val 3" "[]"]
    run_emplace_back run_emplace_back_free
  by simp

section \<open>The relocation policy\<close>

text \<open>
  C7, as stated, includes the rebuild path of copy assignment among the relocations that
  move the elements when the move constructor of the element type never throws.  That
  path does not call \<^verbatim>\<open>CopyN\<close>: it builds \<^verbatim>\<open>rhs_copy\<close> with the copy constructor of
  the vector, which copy-constructs every element whatever the traits are.  For a type
  whose move is \<^verbatim>\<open>noexcept\<close>, assigning \<open>[7, 8]\<close> to a vector of capacity 1 copies both
  elements and moves none.
\<close>

theorem copy_assign_rebuild_copies:
  "nothrow_move_constructible (plain_type (0::nat)) \<and>
   snd (snd (Vector_copy_assign (plain_type 0)
          (empty_store(0 := vector_of [1::nat] 0, 1 := vector_of [7, 8] 0)) 0 1 [])) =
     [Copy_Constructed 7, Copy_Constructed 8, Destroyed 1]"
  using run_copy_assign_rebuild by (simp add: plain_type_def)

text \<open>
  C7, amended: when \<^verbatim>\<open>Reserve\<close> relocates, and when \<^verbatim>\<open>EmplaceBack\<close> or \<^verbatim>\<open>Emplace\<close>
  grows a full vector, a call that returns has move-constructed every element if the
  move constructor of the element type never throws or the type cannot be copied, and
  has copy-constructed every element otherwise; the choice depends on the two traits of
  the type alone (\<open>relocation_events\<close>), and the old objects are destroyed after all of
  them were relocated.  When such a call throws, and the type can be copied or its move
  never throws, the vector is unchanged: no old object was destroyed or moved from.  The
  rebuild path of copy assignment always copy-constructs the elements of the right-hand
  side and then destroys the old elements.
\<close>

theorem relocation_policy:
  assumes "Vector_inv v" "arg_ok (elems v) a" "i \<le> Size v"
    and "this \<noteq> rhs" "Vector_inv (s this)" "Vector_inv (s rhs)"
    and "Capacity (s this) < Size (s rhs)"
  shows "(\<forall>u v' h'. Capacity v < k \<and> Reserve T k v h = (Inr u, v', h') \<longrightarrow>
            h' = h @ relocation_events T (elems v) @
                   map Destroyed (map (relocated_from T) (elems v))) \<and>
         (\<forall>r v' h'. Size v = Capacity v \<and> EmplaceBack T a v h = (Inr r, v', h') \<longrightarrow>
            h' = h @ [arg_event (elems v) a] @ relocation_events T (elems v) @
                   map Destroyed (map (relocated_from T) (elems v))) \<and>
         (\<forall>r v' h'. Size v = Capacity v \<and> Emplace T i a v h = (Inr r, v', h') \<longrightarrow>
            h' = h @ [arg_event (elems v) a] @ relocation_events T (elems v) @
                   map Destroyed (map (relocated_from T) (elems v))) \<and>
         (\<forall>e v' h'. e \<noteq> Precondition_Violation \<and>
            (copy_constructible T \<or> nothrow_move_constructible T) \<and>
            (Reserve T k v h = (Inl e, v', h') \<or>
             Size v = Capacity v \<and>
               (EmplaceBack T a v h = (Inl e, v', h') \<or> Emplace T i a v h = (Inl e, v', h'))) \<longrightarrow>
            v' = v) \<and>
         (\<forall>u s' h'. Vector_copy_assign T s this rhs h = (Inr u, s', h') \<longrightarrow>
            h' = h @ map Copy_Constructed (elems (s rhs)) @ map Destroyed (elems (s this)) \<and>
            elems (s' this) = elems (s rhs))"
proof -
  obtain xs j where v: "v = vector_of xs j"
    using Vector_inv_form [OF assms(1)] by blast
  obtain ys jt where t: "s this = vector_of ys jt"
    using Vector_inv_form [OF assms(5)] by blast
  obtain zs jr where r: "s rhs = vector_of zs jr"
    using Vector_inv_form [OF assms(6)] by blast
  have ok: "arg_ok xs a" using assms(2) by (simp add: v)
  have i: "i \<le> length xs" using assms(3) by (simp add: v)
  have lt: "length ys + jt < length zs" using assms(7) by (simp add: t r)
  have res: "h' = h @ relocation_events T (elems v) @
                   map Destroyed (map (relocated_from T) (elems v))"
    if "Capacity v < k" "Reserve T k v h = (Inr u, v', h')" for u v' h'
    using Reserve_returns [OF that(2) [unfolded v]] that(1) by (simp add: v)
  have eb: "h' = h @ [arg_event (elems v) a] @ relocation_events T (elems v) @
                   map Destroyed (map (relocated_from T) (elems v))"
    if "Size v = Capacity v" "EmplaceBack T a v h = (Inr r, v', h')" for r v' h'
    using EmplaceBack_returns [OF that(2) [unfolded v] ok] that(1) by (simp add: v)
  have em: "h' = h @ [arg_event (elems v) a] @ relocation_events T (elems v) @
                   map Destroyed (map (relocated_from T) (elems v))"
    if "Size v = Capacity v" "Emplace T i a v h = (Inr r, v', h')" for r v' h'
  proof -
    have "j = 0" using that(1) by (simp add: v)
    then show ?thesis
      using Emplace_grow_history [OF _ i ok, of T h r v' h'] that(2) by (simp add: v)
  qed
  have ex: "v' = v"
    if "e \<noteq> Precondition_Violation" "copy_constructible T \<or> nothrow_move_constructible T"
      "Reserve T k v h = (Inl e, v', h') \<or>
       Size v = Capacity v \<and>
         (EmplaceBack T a v h = (Inl e, v', h') \<or> Emplace T i a v h = (Inl e, v', h'))"
    for e v' h'
    using that Reserve_throws [of T k v h e v' h'] EmplaceBack_throws [of T a v h e v' h']
      Emplace_throws [of T i a v h e v' h']
    by (auto simp: Size_def)
  have ca: "h' = h @ map Copy_Constructed (elems (s rhs)) @ map Destroyed (elems (s this)) \<and>
            elems (s' this) = elems (s rhs)"
    if "Vector_copy_assign T s this rhs h = (Inr u, s', h')" for u s' h'
    using copy_assign_rebuild [OF that assms(4) r t lt] by (simp add: t r)
  show ?thesis
    using res eb em ex ca by blast
qed

theorem relocation_policy_witness:
  "Vector_inv (vector_of [1::nat, 2] 0) \<and> arg_ok (elems (vector_of [1::nat, 2] 0)) (Val 3) \<and>
   (1::nat) \<le> Size (vector_of [1::nat, 2] 0) \<and> (0::nat) \<noteq> 1 \<and>
   Capacity (vector_of [1::nat] 0) < Size (vector_of [7::nat, 8] 0) \<and>
   Capacity (vector_of [1::nat, 2] 0) < 5 \<and>
   Reserve (plain_type 0) 5 (vector_of [1::nat, 2] 0) [] =
     (Inr (), vector_of [1, 2] 3,
      [Move_Constructed 1, Move_Constructed 2, Destroyed 1, Destroyed 2]) \<and>
   Reserve (throwing_copy 5 0) 5 (vector_of [1::nat, 2] 0) [] =
     (Inr (), vector_of [1, 2] 3,
      [Copy_Constructed 1, Copy_Constructed 2, Destroyed 1, Destroyed 2]) \<and>
   EmplaceBack (plain_type 0) (Val 3) (vector_of [1::nat, 2] 0) [] =
     (Inr 2, vector_of [1, 2, 3] 1,
      [Constructed 3, Move_Constructed 1, Move_Constructed 2, Destroyed 1, Destroyed 2]) \<and>
   Emplace (plain_type 0) 1 (Val 3) (vector_of [1::nat, 2] 0) [] =
     (Inr 1, vector_of [1, 3, 2] 1,
      [Constructed 3, Move_Constructed 1, Move_Constructed 2, Destroyed 1, Destroyed 2]) \<and>
   Reserve (throwing_copy 1 0) 5 (vector_of [1::nat, 2] 0) [] =
     (Inl Element_Throw, vector_of [1, 2] 0, [Copy_Constructed 1, Raised, Destroyed 1]) \<and>
   snd (snd (Vector_copy_assign (plain_type 0)
          (empty_store(0 := vector_of [1::nat] 0, 1 := vector_of [7, 8] 0)) 0 1 [])) =
     [Copy_Constructed 7, Copy_Constructed 8, Destroyed 1]"
  using relocation_policy [of "vector_of [1::nat, 2] 0" "Val 3" 1 0 1
      "empty_store(0 := vector_of [1::nat] 0, 1 := vector_of [7, 8] 0)" 5 "plain_type 0" "[]"]
    run_reserve_move run_reserve_copy run_emplace_back run_emplace run_reserve_throw
    run_copy_assign_rebuild
  by simp

section \<open>The invariant and copy assignment\<close>

text \<open>
  C6: every vector the public operations produce has \<open>0 \<le> size \<le> capacity\<close>, live
  objects in the slots below the size and none in the slots from the size on
  (\<open>Vector_inv\<close>).  The branch of the copy assignment that keeps the block breaks it when
  \<open>0 < size < rhs.size \<le> capacity\<close>: it copy-constructs the elements
  \<open>[size, rhs.size)\<close> of the right-hand side at \<^verbatim>\<open>data_.GetAddress()\<close>, that is into
  the slots \<open>[0, rhs.size - size)\<close>, over live objects, and then sets the size to
  \<open>rhs.size\<close>.  Assigning \<open>[7, 8, 9]\<close> to a vector that holds \<open>[1]\<close> in four slots
  returns normally with size 3 and the slots \<open>8, 9, -, -\<close>: slot 2 counts as an element
  and holds no object.  Both vectors satisfy the invariant before the call.
\<close>

theorem copy_assign_leaves_slot_uninitialised:
  "Vector_inv (vector_of [1::nat] 3) \<and> Vector_inv (vector_of [7::nat, 8, 9] 1) \<and>
   fst (Vector_copy_assign (plain_type 0)
          (empty_store(0 := vector_of [1::nat] 3, 1 := vector_of [7, 8, 9] 1)) 0 1 []) = Inr () \<and>
   fst (snd (Vector_copy_assign (plain_type 0)
          (empty_store(0 := vector_of [1::nat] 3, 1 := vector_of [7, 8, 9] 1)) 0 1 [])) 0 =
     \<lparr>m_data = \<lparr>m_buffer = [Some 8, Some 9, None, None], m_capacity = 4\<rparr>, m_size = 3\<rparr> \<and>
   snd (snd (Vector_copy_assign (plain_type 0)
          (empty_store(0 := vector_of [1::nat] 3, 1 := vector_of [7, 8, 9] 1)) 0 1 [])) =
     [Copy_Assigned 7, Copy_Constructed 8, Copy_Constructed 9] \<and>
   \<not> Vector_inv
       \<lparr>m_data = \<lparr>m_buffer = [Some 8, Some 9, None, None::nat option], m_capacity = 4\<rparr>,
        m_size = 3\<rparr>"
  by code_simp

section \<open>The element an insertion puts in place\<close>

text \<open>
  C9: \<^verbatim>\<open>Insert\<close> and \<^verbatim>\<open>Emplace\<close> return the iterator \<^verbatim>\<open>begin()\<close> plus the offset of
  the insertion position, and the element there is the inserted value.  The iterator is
  as claimed, and so is the element when the arguments do not refer into the vector
  (lemma \<open>Insert_returns_position\<close> above).  When the value is a reference to an element
  of the vector and a slot is free, the element is shifted first and the reference is
  read afterwards: \<^verbatim>\<open>v.Insert(v.begin(), v[2])\<close> on \<open>[1, 2, 3]\<close> with capacity 4 gives
  \<open>[2, 1, 2, 3]\<close>, not \<open>[3, 1, 2, 3]\<close>.  The branch that replaces the block builds the
  new element before it touches the old ones and inserts 3 on the same call.
\<close>

theorem Insert_of_own_element_after_shift:
  "Insert (plain_type 0) 0 (Elem 2) (vector_of [1::nat, 2, 3] 1) [] =
     (Inr 0, vector_of [2, 1, 2, 3] 0,
      [Move_Constructed 3, Move_Assigned 2, Move_Assigned 1, Copy_Constructed 2,
       Move_Assigned 2, Destroyed 2]) \<and>
   Insert (plain_type 0) 0 (Elem 2) (vector_of [1::nat, 2, 3] 0) [] =
     (Inr 0, vector_of [3, 1, 2, 3] 2,
      [Copy_Constructed 3, Move_Constructed 1, Move_Constructed 2, Move_Constructed 3,
       Destroyed 1, Destroyed 2, Destroyed 3])"
  by code_simp

end
